theory Spec2Isabelle
  imports Complex_Main
begin

section \<open>Arrays and Python errors\<close>

text \<open>
  The metric functions of \<^verbatim>\<open>utils.py\<close> work on numpy integer arrays. An array is
  modelled by its shape and its elements in row-major order; floating-point numbers are
  modelled by the real numbers they approximate, with not-a-number and the infinities
  added where a division by zero can produce them. Every exception the code can raise is a
  value of \<open>py_error\<close>.
\<close>

datatype py_error = IndexError | ZeroDivisionError | ValueError | TypeError

record 'a ndarray =
  shape :: "nat list"
  data :: "'a list"

text \<open>\<^verbatim>\<open>a == i\<close> for an array \<open>a\<close> and a scalar \<open>i\<close>: the elementwise comparison.\<close>

definition np_eq :: "int ndarray \<Rightarrow> int \<Rightarrow> bool ndarray" where
  "np_eq a i = \<lparr>shape = shape a, data = map (\<lambda>v. v = i) (data a)\<rparr>"

text \<open>
  Boolean-mask indexing \<^verbatim>\<open>a[m]\<close>. The mask's shape has to be a prefix of the array's
  shape, otherwise numpy raises \<^verbatim>\<open>IndexError\<close>. Each mask element stands for one block
  of the array (one element when the shapes are equal, a whole sub-array when the mask
  has fewer dimensions); the blocks at the true positions are kept.
\<close>

fun select_blocks :: "nat \<Rightarrow> bool list \<Rightarrow> 'a list \<Rightarrow> 'a list" where
  "select_blocks k [] xs = []"
| "select_blocks k (b # bs) xs =
     (if b then take k xs else []) @ select_blocks k bs (drop k xs)"

definition count_true :: "bool list \<Rightarrow> nat" where
  "count_true bs = length (filter (\<lambda>b. b) bs)"

definition bool_index :: "'a ndarray \<Rightarrow> bool ndarray \<Rightarrow> py_error + 'a ndarray" where
  "bool_index a m =
     (if take (length (shape m)) (shape a) = shape m
      then Inr \<lparr>shape = count_true (data m) # drop (length (shape m)) (shape a),
                data = select_blocks (prod_list (drop (length (shape m)) (shape a)))
                         (data m) (data a)\<rparr>
      else Inl IndexError)"

text \<open>\<^verbatim>\<open>np.sum\<close> of a boolean array: the number of true elements.\<close>

definition np_sum_bool :: "bool ndarray \<Rightarrow> nat" where
  "np_sum_bool m = count_true (data m)"

section \<open>The mean-IoU calculator\<close>

text \<open>
  \<^verbatim>\<open>calculate_mean_iu(predictions, gts, num_classes)\<close> of \<^verbatim>\<open>utils.py\<close>. The inner loop
  over the zipped pairs is \<open>iu_pairs\<close>, with the three accumulators as its state; the body
  of the outer loop (one class) is \<open>class_iu\<close>; the outer loop over
  \<^verbatim>\<open>range(num_classes)\<close> is \<open>iu_classes\<close>, with \<^verbatim>\<open>sum_iu\<close> as its state.
\<close>

definition epsilon :: real where
  "epsilon = 1 / 10 ^ 9"

fun iu_pairs ::
  "int \<Rightarrow> (int ndarray \<times> int ndarray) list \<Rightarrow> real \<times> real \<times> real
     \<Rightarrow> py_error + real \<times> real \<times> real" where
  "iu_pairs i [] acc = Inr acc"
| "iu_pairs i ((p, gt) # rest) (n_ii, t_i, sum_n_ji) =
     (case bool_index gt (np_eq p i) of
        Inl e \<Rightarrow> Inl e
      | Inr sel \<Rightarrow>
          iu_pairs i rest
            (n_ii + real (np_sum_bool (np_eq sel i)),
             t_i + real (np_sum_bool (np_eq gt i)),
             sum_n_ji + real (np_sum_bool (np_eq p i))))"

definition class_iu :: "int \<Rightarrow> (int ndarray \<times> int ndarray) list \<Rightarrow> py_error + real" where
  "class_iu i prs =
     (case iu_pairs i prs (epsilon, epsilon, epsilon) of
        Inl e \<Rightarrow> Inl e
      | Inr (n_ii, t_i, sum_n_ji) \<Rightarrow> Inr (n_ii / (t_i + sum_n_ji - n_ii)))"

fun iu_classes ::
  "int list \<Rightarrow> (int ndarray \<times> int ndarray) list \<Rightarrow> real \<Rightarrow> py_error + real" where
  "iu_classes [] prs sum_iu = Inr sum_iu"
| "iu_classes (i # cs) prs sum_iu =
     (case class_iu i prs of
        Inl e \<Rightarrow> Inl e
      | Inr iu \<Rightarrow> iu_classes cs prs (sum_iu + iu))"

definition py_range :: "int \<Rightarrow> int list" where
  "py_range n = map int [0..<nat n]"

definition calculate_mean_iu ::
  "int ndarray list \<Rightarrow> int ndarray list \<Rightarrow> int \<Rightarrow> py_error + real" where
  "calculate_mean_iu predictions gts num_classes =
     (case iu_classes (py_range num_classes) (zip predictions gts) 0 of
        Inl e \<Rightarrow> Inl e
      | Inr sum_iu \<Rightarrow>
          if num_classes = 0 then Inl ZeroDivisionError
          else Inr (sum_iu / real_of_int num_classes))"

section \<open>Reference definitions for the mean-IoU calculator\<close>

text \<open>
  The counts the specification speaks of, over the elements of a prediction and a
  ground-truth map: the positions holding class \<open>i\<close>, and the positions where both maps
  hold class \<open>i\<close>.
\<close>

definition count_eq :: "int \<Rightarrow> int list \<Rightarrow> nat" where
  "count_eq i xs = length (filter (\<lambda>v. v = i) xs)"

definition count_both :: "int \<Rightarrow> int list \<Rightarrow> int list \<Rightarrow> nat" where
  "count_both i ps gs = length (filter (\<lambda>(a, b). b = i \<and> a = i) (zip ps gs))"

text \<open>
  The reference algorithm of the specification, in its words: the three accumulators start
  at epsilon and gain the counts of every pair; \<open>IoU_i = n_ii / (t_i + sum_n_ji - n_ii)\<close>;
  the mean is the sum of the \<open>IoU_i\<close> over the classes in \<open>[0, num_classes)\<close> divided
  by \<open>num_classes\<close>.
\<close>

definition spec_n_ii :: "int \<Rightarrow> (int ndarray \<times> int ndarray) list \<Rightarrow> real" where
  "spec_n_ii i prs = epsilon + (\<Sum>(p, gt)\<leftarrow>prs. real (count_both i (data p) (data gt)))"

definition spec_t_i :: "int \<Rightarrow> (int ndarray \<times> int ndarray) list \<Rightarrow> real" where
  "spec_t_i i prs = epsilon + (\<Sum>(p, gt)\<leftarrow>prs. real (count_eq i (data gt)))"

definition spec_sum_n_ji :: "int \<Rightarrow> (int ndarray \<times> int ndarray) list \<Rightarrow> real" where
  "spec_sum_n_ji i prs = epsilon + (\<Sum>(p, gt)\<leftarrow>prs. real (count_eq i (data p)))"

definition spec_IoU :: "int \<Rightarrow> (int ndarray \<times> int ndarray) list \<Rightarrow> real" where
  "spec_IoU i prs = spec_n_ii i prs / (spec_t_i i prs + spec_sum_n_ji i prs - spec_n_ii i prs)"

definition spec_mean_iu :: "int ndarray list \<Rightarrow> int ndarray list \<Rightarrow> int \<Rightarrow> real" where
  "spec_mean_iu predictions ground_truths num_classes =
     (\<Sum>i\<in>{0..<num_classes}. spec_IoU i (zip predictions ground_truths))
       / real_of_int num_classes"

text \<open>
  A prediction and its ground truth are label maps of the same image: every zipped pair
  has one shape. A class is absent from a list of maps when no element holds it.
\<close>

definition same_shapes :: "(int ndarray \<times> int ndarray) list \<Rightarrow> bool" where
  "same_shapes prs = list_all (\<lambda>(p, gt). shape p = shape gt) prs"

definition absent :: "int \<Rightarrow> int ndarray list \<Rightarrow> bool" where
  "absent i arrays = list_all (\<lambda>a. i \<notin> set (data a)) arrays"

section \<open>The training and validation drivers\<close>

text \<open>
  \<^verbatim>\<open>train_icnet_mulit.py\<close> drives collaborators that are opaque here: the network, the
  loss aggregator, the optimizer, the learning-rate scheduler, timers. The drivers are
  modelled by the calls they issue on these collaborators, in program order; \<open>call\<close>
  lists the methods of the collaborators' interfaces (\<open>LossBackward\<close> is
  \<^verbatim>\<open>loss.backward()\<close>, \<open>SchedulerStep\<close> is \<^verbatim>\<open>scheduler.step()\<close>).
\<close>

datatype call =
    NetTrainMode | NetEvalMode | CriterionCuda | CriterionCpu
  | MakeOptimizer | MakeScheduler
  | ZeroGrad | NetForward | CriterionCall | LossBackward | OptimizerStep | SchedulerStep
  | TimerTic | TimerToc | Print | Validate int

text \<open>
  \<^verbatim>\<open>train(train_loader, net, criterion, optimizer, epoch)\<close>: per batch,
  \<^verbatim>\<open>optimizer.zero_grad()\<close>, \<^verbatim>\<open>net(inputs)\<close>, \<^verbatim>\<open>criterion(outputs, labels)\<close>,
  \<^verbatim>\<open>optimizer.step()\<close>.
\<close>

fun train :: "'batch list \<Rightarrow> call list" where
  "train [] = []"
| "train (batch # rest) = [ZeroGrad, NetForward, CriterionCall, OptimizerStep] @ train rest"

text \<open>
  \<^verbatim>\<open>main()\<close>: the set-up, a first validation for epoch \<open>-1\<close>, then for every epoch of
  \<^verbatim>\<open>range(cfg.TRAIN.MAX_EPOCH)\<close> the timed training pass and the timed validation.
\<close>

definition epoch_calls :: "'batch list \<Rightarrow> int \<Rightarrow> call list" where
  "epoch_calls train_loader epoch =
     [TimerTic] @ train train_loader
       @ [TimerToc, Print, TimerTic, Validate epoch, TimerToc, Print]"

definition main :: "'batch list \<Rightarrow> int \<Rightarrow> call list" where
  "main train_loader max_epoch =
     [NetTrainMode, CriterionCuda, MakeOptimizer, MakeScheduler, Validate (- 1)]
       @ concat (map (epoch_calls train_loader) (py_range max_epoch))"

text \<open>The batch iteration the specification describes, step by step.\<close>

definition spec_batch_steps :: "call list" where
  "spec_batch_steps = [ZeroGrad, NetForward, CriterionCall, LossBackward, OptimizerStep]"

text \<open>
  Python values as far as \<^verbatim>\<open>validate\<close> needs them: a float, or a sequence. Unpacking
  into \<open>n\<close> names raises \<^verbatim>\<open>TypeError\<close> on a float (it is not iterable) and
  \<^verbatim>\<open>ValueError\<close> on a sequence of another length; \<^verbatim>\<open>+=\<close> on a number accepts a
  number.
\<close>

datatype py_value = PyFloat real | PyTuple "py_value list"

fun unpack :: "nat \<Rightarrow> py_value \<Rightarrow> py_error + py_value list" where
  "unpack n (PyFloat x) = Inl TypeError"
| "unpack n (PyTuple vs) = (if length vs = n then Inr vs else Inl ValueError)"

fun add_to :: "real \<Rightarrow> py_value \<Rightarrow> py_error + real" where
  "add_to s (PyFloat x) = Inr (s + x)"
| "add_to s (PyTuple vs) = Inl TypeError"

fun add_all :: "real list \<Rightarrow> py_value list \<Rightarrow> py_error + real list" where
  "add_all (s # totals) (v # vs) =
     (case add_to s v of
        Inl e \<Rightarrow> Inl e
      | Inr s' \<Rightarrow>
          (case add_all totals vs of Inl e \<Rightarrow> Inl e | Inr rest \<Rightarrow> Inr (s' # rest)))"
| "add_all _ _ = Inr []"

text \<open>\<^verbatim>\<open>t.unsqueeze_(1)\<close>: a new axis of length 1 at position 1.\<close>

definition unsqueeze1 :: "'a ndarray \<Rightarrow> py_error + 'a ndarray" where
  "unsqueeze1 a =
     (if shape a = [] then Inl IndexError
      else Inr (a\<lparr>shape := take 1 (shape a) @ 1 # drop 1 (shape a)\<rparr>))"

text \<open>
  \<^verbatim>\<open>validate\<close>. A batch is the pair of the predicted label map (the arg-max of the
  network's first output) and the labels. The driver imports \<^verbatim>\<open>calculate_mean_iu\<close>
  from a module that is not among the sources, so the function called is a parameter;
  \<open>calculate_mean_iu_value\<close> is the one of \<^verbatim>\<open>utils.py\<close>, returning its float. The six
  running totals are \<^verbatim>\<open>mean_classe0\<close> to \<^verbatim>\<open>mean_classe4\<close> and \<^verbatim>\<open>mean_tot\<close>; the
  averages printed after the loop divide them by \<^verbatim>\<open>len(val_loader)\<close>.
\<close>

type_synonym mean_iu_fn =
  "int ndarray list \<Rightarrow> int ndarray list \<Rightarrow> int \<Rightarrow> py_error + py_value"

fun validate_loop ::
  "mean_iu_fn \<Rightarrow> int \<Rightarrow> (int ndarray \<times> int ndarray) list \<Rightarrow> real list
     \<Rightarrow> py_error + real list" where
  "validate_loop f num_classes [] totals = Inr totals"
| "validate_loop f num_classes ((predicted, labels) # rest) totals =
     (case unsqueeze1 predicted of
        Inl e \<Rightarrow> Inl e
      | Inr p \<Rightarrow>
     (case unsqueeze1 labels of
        Inl e \<Rightarrow> Inl e
      | Inr l \<Rightarrow>
     (case f [p] [l] num_classes of
        Inl e \<Rightarrow> Inl e
      | Inr result \<Rightarrow>
     (case unpack 6 result of
        Inl e \<Rightarrow> Inl e
      | Inr means \<Rightarrow>
     (case add_all totals means of
        Inl e \<Rightarrow> Inl e
      | Inr totals' \<Rightarrow> validate_loop f num_classes rest totals')))))"

definition validate ::
  "mean_iu_fn \<Rightarrow> int \<Rightarrow> (int ndarray \<times> int ndarray) list \<Rightarrow> py_error + real list" where
  "validate f num_classes val_loader =
     (case validate_loop f num_classes val_loader [0, 0, 0, 0, 0, 0] of
        Inl e \<Rightarrow> Inl e
      | Inr totals \<Rightarrow>
          if length val_loader = 0 then Inl ZeroDivisionError
          else Inr (map (\<lambda>s. s / real (length val_loader)) totals))"

definition calculate_mean_iu_value :: mean_iu_fn where
  "calculate_mean_iu_value predictions gts num_classes =
     (case calculate_mean_iu predictions gts num_classes of
        Inl e \<Rightarrow> Inl e
      | Inr mean_iu \<Rightarrow> Inr (PyFloat mean_iu))"

section \<open>Floating-point results of divisions\<close>

text \<open>
  \<^verbatim>\<open>scores\<close> divides arrays of counts elementwise; numpy does not raise on a zero
  divisor but yields not-a-number for \<open>0/0\<close> and an infinity otherwise. A float result
  is a real number, an infinity or not-a-number, with the arithmetic of IEEE 754 on the
  three special values.
\<close>

datatype npfloat = Fin real | PInf | NInf | NaN

definition np_div :: "real \<Rightarrow> real \<Rightarrow> npfloat" where
  "np_div a b =
     (if b \<noteq> 0 then Fin (a / b)
      else if a = 0 then NaN
      else if 0 < a then PInf else NInf)"

fun np_add :: "npfloat \<Rightarrow> npfloat \<Rightarrow> npfloat" where
  "np_add (Fin a) (Fin b) = Fin (a + b)"
| "np_add NaN _ = NaN"
| "np_add _ NaN = NaN"
| "np_add PInf NInf = NaN"
| "np_add NInf PInf = NaN"
| "np_add PInf _ = PInf"
| "np_add _ PInf = PInf"
| "np_add NInf _ = NInf"
| "np_add _ NInf = NInf"

fun np_mul :: "npfloat \<Rightarrow> npfloat \<Rightarrow> npfloat" where
  "np_mul (Fin a) (Fin b) = Fin (a * b)"
| "np_mul NaN _ = NaN"
| "np_mul _ NaN = NaN"
| "np_mul PInf (Fin b) = (if b = 0 then NaN else if 0 < b then PInf else NInf)"
| "np_mul NInf (Fin b) = (if b = 0 then NaN else if 0 < b then NInf else PInf)"
| "np_mul (Fin a) PInf = (if a = 0 then NaN else if 0 < a then PInf else NInf)"
| "np_mul (Fin a) NInf = (if a = 0 then NaN else if 0 < a then NInf else PInf)"
| "np_mul PInf PInf = PInf"
| "np_mul NInf NInf = PInf"
| "np_mul PInf NInf = NInf"
| "np_mul NInf PInf = NInf"

text \<open>\<^verbatim>\<open>x > 0\<close> on a float: false on not-a-number.\<close>

fun np_gt0 :: "npfloat \<Rightarrow> bool" where
  "np_gt0 (Fin x) = (0 < x)"
| "np_gt0 PInf = True"
| "np_gt0 NInf = False"
| "np_gt0 NaN = False"

text \<open>\<^verbatim>\<open>.sum()\<close> of a float array; the sum of no element is \<open>0.0\<close>.\<close>

definition np_sum :: "npfloat list \<Rightarrow> npfloat" where
  "np_sum xs = foldl np_add (Fin 0) xs"

text \<open>
  \<^verbatim>\<open>np.nanmean\<close>: the sum of the elements that are numbers, divided by how many they
  are; not-a-number when there is none.
\<close>

definition np_div_count :: "npfloat \<Rightarrow> nat \<Rightarrow> npfloat" where
  "np_div_count x c =
     (case x of Fin s \<Rightarrow> np_div s (real c) | PInf \<Rightarrow> PInf | NInf \<Rightarrow> NInf | NaN \<Rightarrow> NaN)"

definition nanmean :: "npfloat list \<Rightarrow> npfloat" where
  "nanmean xs =
     (let ys = filter (\<lambda>x. x \<noteq> NaN) xs in np_div_count (np_sum ys) (length ys))"

text \<open>\<^verbatim>\<open>xs[mask]\<close> for a mask of the array's own one-dimensional shape.\<close>

definition np_select :: "bool list \<Rightarrow> 'a list \<Rightarrow> 'a list" where
  "np_select msk xs = map snd (filter fst (zip msk xs))"

section \<open>The fast-histogram scorer\<close>

text \<open>
  \<^verbatim>\<open>np.bincount(xs, minlength=m)\<close>: \<^verbatim>\<open>ValueError\<close> on a negative element; otherwise
  the number of occurrences of every value from 0 up to the largest one, padded with
  zeros to length \<open>m\<close>.
\<close>

definition bins_needed :: "int list \<Rightarrow> nat" where
  "bins_needed xs = fold (\<lambda>x m. max (nat (x + 1)) m) xs 0"

definition bincount :: "int list \<Rightarrow> nat \<Rightarrow> py_error + nat list" where
  "bincount xs minlength =
     (if list_ex (\<lambda>x. x < 0) xs then Inl ValueError
      else Inr (map (\<lambda>k. count_list xs (int k)) [0..<max minlength (bins_needed xs)]))"

text \<open>
  \<^verbatim>\<open>.reshape(n, n)\<close> of a flat array: \<^verbatim>\<open>ValueError\<close> unless it has \<open>n * n\<close>
  elements. The matrix is kept in row-major order: row \<open>i\<close> is the \<open>i\<close>-th block of
  \<open>n\<close> elements.
\<close>

definition reshape_square :: "nat list \<Rightarrow> nat \<Rightarrow> py_error + nat list" where
  "reshape_square h n = (if length h = n * n then Inr h else Inl ValueError)"

definition flatten :: "'a ndarray \<Rightarrow> 'a ndarray" where
  "flatten a = \<lparr>shape = [length (data a)], data = data a\<rparr>"

definition fast_hist :: "int ndarray \<Rightarrow> int ndarray \<Rightarrow> int \<Rightarrow> py_error + nat list" where
  "fast_hist label_true label_pred n_class =
     (let msk = \<lparr>shape = shape label_true,
                  data = map (\<lambda>v. 0 \<le> v \<and> v < n_class) (data label_true)\<rparr>
      in case bool_index label_true msk of
           Inl e \<Rightarrow> Inl e
         | Inr a \<Rightarrow>
        (case bool_index label_pred msk of
           Inl e \<Rightarrow> Inl e
         | Inr b \<Rightarrow>
        (case bincount (map2 (\<lambda>t p. n_class * t + p) (data a) (data b))
                (nat (n_class * n_class)) of
           Inl e \<Rightarrow> Inl e
         | Inr counted \<Rightarrow> reshape_square counted (nat n_class))))"

fun hist_loop ::
  "(int ndarray \<times> int ndarray) list \<Rightarrow> int \<Rightarrow> nat list \<Rightarrow> py_error + nat list" where
  "hist_loop [] n_class hist = Inr hist"
| "hist_loop ((lt, lp) # rest) n_class hist =
     (case fast_hist (flatten lt) (flatten lp) n_class of
        Inl e \<Rightarrow> Inl e
      | Inr h \<Rightarrow> hist_loop rest n_class (map2 (+) hist h))"

definition hist_row :: "nat list \<Rightarrow> nat \<Rightarrow> nat \<Rightarrow> nat list" where
  "hist_row h n i = take n (drop (i * n) h)"

definition np_diag :: "nat list \<Rightarrow> nat \<Rightarrow> nat list" where
  "np_diag h n = map (\<lambda>i. hist_row h n i ! i) [0..<n]"

definition sum_axis1 :: "nat list \<Rightarrow> nat \<Rightarrow> nat list" where
  "sum_axis1 h n = map (\<lambda>i. sum_list (hist_row h n i)) [0..<n]"

definition sum_axis0 :: "nat list \<Rightarrow> nat \<Rightarrow> nat list" where
  "sum_axis0 h n = map (\<lambda>j. \<Sum>i\<leftarrow>[0..<n]. hist_row h n i ! j) [0..<n]"

record score_result =
  overall_acc :: npfloat
  mean_acc :: npfloat
  freqw_acc :: npfloat
  mean_iou :: npfloat
  cls_iu :: "npfloat list"

definition score_metrics :: "nat list \<Rightarrow> nat \<Rightarrow> score_result" where
  "score_metrics hist n =
     (let diag = map real (np_diag hist n);
          rows = map real (sum_axis1 hist n);
          cols = map real (sum_axis0 hist n);
          total = real (sum_list hist);
          acc = np_div (sum_list diag) total;
          acc_cls = nanmean (map2 np_div diag rows);
          iu = map2 np_div diag (map2 (-) (map2 (+) rows cols) diag);
          mean_iu = nanmean iu;
          freq = map (\<lambda>r. np_div r total) rows;
          fwavacc = np_sum (map2 np_mul (np_select (map np_gt0 freq) freq)
                                        (np_select (map np_gt0 freq) iu))
      in \<lparr>overall_acc = acc, mean_acc = acc_cls, freqw_acc = fwavacc,
          mean_iou = mean_iu, cls_iu = iu\<rparr>)"

definition scores ::
  "int ndarray list \<Rightarrow> int ndarray list \<Rightarrow> int \<Rightarrow> py_error + score_result" where
  "scores label_trues label_preds n_class =
     (if n_class < 0 then Inl ValueError
      else case hist_loop (zip label_trues label_preds) n_class
                  (replicate (nat n_class * nat n_class) 0) of
             Inl e \<Rightarrow> Inl e
           | Inr hist \<Rightarrow> Inr (score_metrics hist (nat n_class)))"

section \<open>Reference definitions for the fast-histogram scorer\<close>

text \<open>
  For class \<open>i\<close> of an \<open>n \<times> n\<close> histogram: the diagonal entry (pixels of class \<open>i\<close>
  predicted as \<open>i\<close>), the row sum (pixels whose true class is \<open>i\<close>, the class's
  support) and the column sum (pixels predicted as \<open>i\<close>).
\<close>

definition hits :: "nat list \<Rightarrow> nat \<Rightarrow> nat \<Rightarrow> nat" where
  "hits h n i = hist_row h n i ! i"

definition true_count :: "nat list \<Rightarrow> nat \<Rightarrow> nat \<Rightarrow> nat" where
  "true_count h n i = sum_list (hist_row h n i)"

definition pred_count :: "nat list \<Rightarrow> nat \<Rightarrow> nat \<Rightarrow> nat" where
  "pred_count h n j = (\<Sum>i\<leftarrow>[0..<n]. hist_row h n i ! j)"

definition class_acc :: "nat list \<Rightarrow> nat \<Rightarrow> nat \<Rightarrow> real" where
  "class_acc h n i = real (hits h n i) / real (true_count h n i)"

definition class_iou :: "nat list \<Rightarrow> nat \<Rightarrow> nat \<Rightarrow> real" where
  "class_iou h n i =
     real (hits h n i) / (real (true_count h n i) + real (pred_count h n i) - real (hits h n i))"

definition class_freq :: "nat list \<Rightarrow> nat \<Rightarrow> nat \<Rightarrow> real" where
  "class_freq h n i = real (true_count h n i) / real (sum_list h)"

text \<open>The mean of \<open>f\<close> over the classes of a list; not-a-number over no class.\<close>

definition mean_over :: "nat list \<Rightarrow> (nat \<Rightarrow> real) \<Rightarrow> npfloat" where
  "mean_over cs f = (if cs = [] then NaN else Fin (sum_list (map f cs) / real (length cs)))"

text \<open>
  What the claims about identical label maps speak of: a map whose values all lie in
  \<open>[0, n_class)\<close>; a list of maps in which every class of \<open>[0, n_class)\<close> occurs; a
  list of maps that is not empty of pixels.
\<close>

definition in_range :: "int \<Rightarrow> int ndarray \<Rightarrow> bool" where
  "in_range n_class a = list_all (\<lambda>v. 0 \<le> v \<and> v < n_class) (data a)"

definition all_classes_present :: "int \<Rightarrow> int ndarray list \<Rightarrow> bool" where
  "all_classes_present n_class maps =
     list_all (\<lambda>c. list_ex (\<lambda>a. c \<in> set (data a)) maps) (py_range n_class)"

definition has_pixel :: "int ndarray list \<Rightarrow> bool" where
  "has_pixel maps = list_ex (\<lambda>a. data a \<noteq> []) maps"

text \<open>
  For a map compared with itself, \<^verbatim>\<open>_fast_hist\<close> counts the linear indices
  \<open>n_class * v + v\<close>; \<open>diag_hist\<close> is the histogram entry they add up to over a list of
  maps, and \<open>class_pixels\<close> the number of pixels of one class.
\<close>

definition diag_index :: "int \<Rightarrow> int ndarray \<Rightarrow> int list" where
  "diag_index n_class a = map (\<lambda>v. n_class * v + v) (data a)"

definition diag_hist :: "int \<Rightarrow> int ndarray list \<Rightarrow> nat \<Rightarrow> nat" where
  "diag_hist n maps k = (\<Sum>a\<leftarrow>maps. count_list (diag_index n a) (int k))"

definition class_pixels :: "int ndarray list \<Rightarrow> nat \<Rightarrow> nat" where
  "class_pixels maps i = (\<Sum>a\<leftarrow>maps. count_list (data a) (int i))"

section \<open>The focal loss function\<close>

text \<open>
  \<^verbatim>\<open>FocalSigmoidLossFuncV2\<close> works elementwise, so a tensor is modelled by one of its
  elements, a real number. \<open>None\<close> stands for a result that is not a finite number.

  The sigmoid is the exact one, with values strictly between 0 and 1. The floating-point
  \<^verbatim>\<open>torch.sigmoid\<close> rounds to exactly \<open>1.0\<close> at large logits (and to \<open>0.0\<close> at very
  negative ones), so there the saved \<open>probs\<close> can equal a label 0 or 1; the backward is
  therefore a function of the saved context alone, whatever \<open>probs\<close> it holds.
\<close>

definition sigmoid :: "real \<Rightarrow> real" where
  "sigmoid x = 1 / (1 + exp (- x))"

text \<open>
  \<^verbatim>\<open>F.softplus(x, beta, threshold)\<close>: \<open>log(1 + exp(beta * x)) / beta\<close>, and \<open>x\<close>
  itself when \<open>beta * x\<close> exceeds the threshold.
\<close>

definition softplus :: "real \<Rightarrow> real \<Rightarrow> real \<Rightarrow> real" where
  "softplus x beta threshold =
     (if beta * x > threshold then x else ln (1 + exp (beta * x)) / beta)"

text \<open>
  \<^verbatim>\<open>t.abs_().pow_(e)\<close>: the power of an absolute value. At base zero the result is 1
  for exponent zero, 0 for a positive exponent and infinite for a negative one.
\<close>

definition abs_pow :: "real \<Rightarrow> real \<Rightarrow> real option" where
  "abs_pow x e =
     (if x = 0 then (if e = 0 then Some 1 else if 0 < e then Some 0 else None)
      else Some (\<bar>x\<bar> powr e))"

record focal_ctx =
  ctx_coeff :: real
  ctx_probs :: real
  ctx_ce :: real
  ctx_label :: real
  ctx_gamma :: real
  ctx_alpha :: real

definition FocalSigmoidLossFuncV2_forward ::
  "real \<Rightarrow> real \<Rightarrow> real \<Rightarrow> real \<Rightarrow> (real \<times> focal_ctx) option" where
  "FocalSigmoidLossFuncV2_forward logits label alpha gamma =
     (let probs = sigmoid logits in
      case abs_pow (label - probs) gamma of
        None \<Rightarrow> None
      | Some pw \<Rightarrow>
          let coeff = - pw;
              log_probs = (if logits \<ge> 0 then softplus logits (- 1) 50
                           else logits - softplus logits 1 50);
              log_1_probs = (if logits \<ge> 0 then - logits + softplus logits (- 1) 50
                             else - softplus logits 1 50);
              ce_term1 = log_probs * label * alpha;
              ce_term2 = log_1_probs * (1 - label) * (1 - alpha);
              ce = ce_term1 + ce_term2;
              loss = ce * coeff
          in Some (loss, \<lparr>ctx_coeff = coeff, ctx_probs = probs, ctx_ce = ce,
                           ctx_label = label, ctx_gamma = gamma, ctx_alpha = alpha\<rparr>))"









section \<open>The mean-IoU calculator: the loops in closed form\<close>

lemma count_true_map: "count_true (map f xs) = length (filter f xs)"
  by (induction xs) (simp_all add: count_true_def)

lemma np_sum_np_eq: "np_sum_bool (np_eq a i) = count_eq i (data a)"
  by (simp add: np_sum_bool_def np_eq_def count_true_map count_eq_def)

lemma select_blocks_Nil: "select_blocks k bs [] = []"
  by (induction bs) simp_all

text \<open>With a mask of the array's own shape, every block is one element.\<close>

lemma select_blocks_one:
  "count_eq i (select_blocks (Suc 0) (map (\<lambda>v. v = i) ps) gs) = count_both i ps gs"
proof (induction ps arbitrary: gs)
  case Nil
  then show ?case by (simp add: count_eq_def count_both_def)
next
  case (Cons a ps)
  show ?case
  proof (cases gs)
    case Nil
    then show ?thesis by (simp add: select_blocks_Nil count_eq_def count_both_def)
  next
    case (Cons g gs')
    with Cons.IH[of gs'] show ?thesis
      by (simp add: count_eq_def count_both_def)
  qed
qed

lemma bool_index_same_shape:
  "shape p = shape gt \<Longrightarrow>
   bool_index gt (np_eq p i) =
     Inr \<lparr>shape = [count_eq i (data p)],
          data = select_blocks (Suc 0) (map (\<lambda>v. v = i) (data p)) (data gt)\<rparr>"
  by (simp add: bool_index_def np_eq_def count_true_map count_eq_def)

lemma iu_pairs_step:
  assumes "shape p = shape gt"
  shows "iu_pairs i ((p, gt) # rest) (n, t, s) =
     iu_pairs i rest (n + real (count_both i (data p) (data gt)),
                      t + real (count_eq i (data gt)),
                      s + real (count_eq i (data p)))"
  by (simp add: bool_index_same_shape[OF assms] np_sum_np_eq select_blocks_one)

lemma iu_pairs_same_shapes:
  "same_shapes prs \<Longrightarrow>
   iu_pairs i prs (n, t, s) =
     Inr (n + (\<Sum>(p, gt)\<leftarrow>prs. real (count_both i (data p) (data gt))),
          t + (\<Sum>(p, gt)\<leftarrow>prs. real (count_eq i (data gt))),
          s + (\<Sum>(p, gt)\<leftarrow>prs. real (count_eq i (data p))))"
proof (induction prs arbitrary: n t s)
  case Nil
  then show ?case by simp
next
  case (Cons pr prs)
  obtain p gt where pr: "pr = (p, gt)" by (cases pr)
  from Cons.prems pr have sh: "shape p = shape gt" and rest: "same_shapes prs"
    by (simp_all add: same_shapes_def)
  show ?case
    unfolding pr iu_pairs_step[OF sh] Cons.IH[OF rest]
    by (simp add: add.assoc)
qed

lemma class_iu_same_shapes:
  "same_shapes prs \<Longrightarrow> class_iu i prs = Inr (spec_IoU i prs)"
  by (simp add: class_iu_def iu_pairs_same_shapes spec_IoU_def spec_n_ii_def spec_t_i_def
      spec_sum_n_ji_def)

lemma iu_classes_same_shapes:
  "same_shapes prs \<Longrightarrow>
   iu_classes cs prs sum_iu = Inr (sum_iu + (\<Sum>i\<leftarrow>cs. spec_IoU i prs))"
  by (induction cs arbitrary: sum_iu) (simp_all add: class_iu_same_shapes add.assoc)

lemma set_py_range: "set (py_range n) = {0..<n}"
proof -
  have "int ` {0..<nat n} = {0..<n}"
  proof (intro set_eqI iffI)
    fix x assume "x \<in> {0..<n}"
    then have "x = int (nat x)" and "nat x \<in> {0..<nat n}" by auto
    then show "x \<in> int ` {0..<nat n}" by (rule image_eqI)
  qed auto
  then show ?thesis by (simp add: py_range_def)
qed

lemma distinct_py_range: "distinct (py_range n)"
  by (simp add: py_range_def distinct_map)

lemma sum_list_py_range: "(\<Sum>i\<leftarrow>py_range n. f i) = (\<Sum>i\<in>{0..<n}. f i)"
  using sum_list_distinct_conv_sum_set[OF distinct_py_range, of f n]
  by (simp add: set_py_range)

lemma calculate_mean_iu_same_shapes:
  assumes "same_shapes (zip predictions gts)" and "num_classes \<noteq> 0"
  shows "calculate_mean_iu predictions gts num_classes
           = Inr ((\<Sum>i\<leftarrow>py_range num_classes. spec_IoU i (zip predictions gts))
                    / real_of_int num_classes)"
  using assms by (simp add: calculate_mean_iu_def iu_classes_same_shapes)

text \<open>
  C1, as amended. On label maps that pair up shape by shape, \<open>calculate_mean_iu\<close> returns
  what the reference algorithm of the specification computes: accumulators started at
  epsilon and increased by the three counts of every pair, the ratio
  \<open>n_ii / (t_i + sum_n_ji - n_ii)\<close> per class, and the sum of the ratios divided by the
  number of classes; for a class count of zero that division raises
  \<^verbatim>\<open>ZeroDivisionError\<close>.
\<close>

theorem calculate_mean_iu_refines_spec:
  assumes "same_shapes (zip predictions gts)"
  shows "calculate_mean_iu predictions gts num_classes =
           (if num_classes = 0 then Inl ZeroDivisionError
            else Inr (spec_mean_iu predictions gts num_classes))"
proof (cases "num_classes = 0")
  case True
  then show ?thesis by (simp add: calculate_mean_iu_def py_range_def)
next
  case False
  with calculate_mean_iu_same_shapes[OF assms False] show ?thesis
    by (simp add: sum_list_py_range spec_mean_iu_def)
qed

theorem calculate_mean_iu_refines_spec_witness:
  "same_shapes (zip [\<lparr>shape = [2, 2], data = [0, 1, 1, 0]\<rparr>]
                    [\<lparr>shape = [2, 2], data = [0, 1, 0, 0]\<rparr>])
   \<and> calculate_mean_iu [\<lparr>shape = [2, 2], data = [0, 1, 1, 0]\<rparr>]
        [\<lparr>shape = [2, 2], data = [0, 1, 0, 0]\<rparr>] 2
      = Inr (spec_mean_iu [\<lparr>shape = [2, 2], data = [0, 1, 1, 0]\<rparr>]
               [\<lparr>shape = [2, 2], data = [0, 1, 0, 0]\<rparr>] 2)
   \<and> calculate_mean_iu [\<lparr>shape = [2, 2], data = [0, 1, 1, 0]\<rparr>]
        [\<lparr>shape = [2, 2], data = [0, 1, 0, 0]\<rparr>] 0
      = Inl ZeroDivisionError"
proof -
  have sh: "same_shapes (zip [\<lparr>shape = [2, 2], data = [0, 1, 1, 0]\<rparr>]
                             [\<lparr>shape = [2, 2], data = [0, 1, 0, 0::int]\<rparr>])"
    by (simp add: same_shapes_def)
  from calculate_mean_iu_refines_spec[OF sh, of 2]
    calculate_mean_iu_refines_spec[OF sh, of 0] sh
  show ?thesis by simp
qed

text \<open>
  C1 as stated fails when a prediction and its ground truth differ in shape: a
  one-dimensional prediction of two elements selects whole rows of a ground truth of shape
  \<open>(2, 3)\<close>, so for the one class \<open>n_ii\<close> gains 6 where the count of positions at which
  both equal the class is 2, and the code returns \<open>(6 + epsilon) / (2 + epsilon)\<close> where the
  reference algorithm gives \<open>(2 + epsilon) / (6 + epsilon)\<close>.
\<close>

theorem calculate_mean_iu_differs_from_reference_counterexample:
  "calculate_mean_iu [\<lparr>shape = [2], data = [0, 0]\<rparr>]
      [\<lparr>shape = [2, 3], data = [0, 0, 0, 0, 0, 0]\<rparr>] 1 = Inr ((epsilon + 6) / (epsilon + 2))
   \<and> spec_mean_iu [\<lparr>shape = [2], data = [0, 0]\<rparr>]
      [\<lparr>shape = [2, 3], data = [0, 0, 0, 0, 0, 0]\<rparr>] 1 = (epsilon + 2) / (epsilon + 6)
   \<and> (epsilon + 6) / (epsilon + 2) \<noteq> (epsilon + 2) / (epsilon + 6)"
proof -
  have e: "0 < epsilon" by (simp add: epsilon_def)
  then have "(epsilon + 2) / (epsilon + 6) < 1" and "1 < (epsilon + 6) / (epsilon + 2)"
    by simp_all
  then have d: "(epsilon + 6) / (epsilon + 2) \<noteq> (epsilon + 2) / (epsilon + 6)" by linarith
  have c: "calculate_mean_iu [\<lparr>shape = [2], data = [0, 0]\<rparr>]
      [\<lparr>shape = [2, 3], data = [0, 0, 0, 0, 0, 0]\<rparr>] 1 = Inr ((epsilon + 6) / (epsilon + 2))"
    by (simp add: calculate_mean_iu_def py_range_def class_iu_def bool_index_def np_eq_def
        np_sum_bool_def count_true_def)
  have s: "spec_mean_iu [\<lparr>shape = [2], data = [0, 0]\<rparr>]
      [\<lparr>shape = [2, 3], data = [0, 0, 0, 0, 0, 0]\<rparr>] 1 = (epsilon + 2) / (epsilon + 6)"
    by (simp add: spec_mean_iu_def spec_IoU_def spec_n_ii_def spec_t_i_def spec_sum_n_ji_def
        count_both_def count_eq_def)
  from c s d show ?thesis by blast
qed

section \<open>The mean-IoU calculator: bounds\<close>

lemma count_both_le_gt: "count_both i ps gs \<le> count_eq i gs"
proof (induction ps arbitrary: gs)
  case Nil
  then show ?case by (simp add: count_both_def)
next
  case (Cons a ps)
  show ?case
  proof (cases gs)
    case Nil
    then show ?thesis by (simp add: count_both_def)
  next
    case (Cons g gs')
    with Cons.IH[of gs'] show ?thesis by (simp add: count_both_def count_eq_def)
  qed
qed

lemma count_both_le_p: "count_both i ps gs \<le> count_eq i ps"
proof (induction ps arbitrary: gs)
  case Nil
  then show ?case by (simp add: count_both_def)
next
  case (Cons a ps)
  show ?case
  proof (cases gs)
    case Nil
    then show ?thesis by (simp add: count_both_def)
  next
    case (Cons g gs')
    with Cons.IH[of gs'] show ?thesis by (simp add: count_both_def count_eq_def)
  qed
qed

lemma epsilon_pos: "0 < epsilon"
  by (simp add: epsilon_def)

lemma spec_n_ii_pos: "0 < spec_n_ii i prs"
proof -
  have "0 \<le> (\<Sum>(p, gt)\<leftarrow>prs. real (count_both i (data p) (data gt)))"
    by (rule sum_list_nonneg) auto
  with epsilon_pos show ?thesis by (simp add: spec_n_ii_def)
qed

lemma spec_n_ii_le_t_i: "spec_n_ii i prs \<le> spec_t_i i prs"
proof -
  have "(\<Sum>(p, gt)\<leftarrow>prs. real (count_both i (data p) (data gt)))
          \<le> (\<Sum>(p, gt)\<leftarrow>prs. real (count_eq i (data gt)))"
    by (rule sum_list_mono) (auto simp: count_both_le_gt)
  then show ?thesis by (simp add: spec_n_ii_def spec_t_i_def)
qed

lemma spec_n_ii_le_sum_n_ji: "spec_n_ii i prs \<le> spec_sum_n_ji i prs"
proof -
  have "(\<Sum>(p, gt)\<leftarrow>prs. real (count_both i (data p) (data gt)))
          \<le> (\<Sum>(p, gt)\<leftarrow>prs. real (count_eq i (data p)))"
    by (rule sum_list_mono) (auto simp: count_both_le_p)
  then show ?thesis by (simp add: spec_n_ii_def spec_sum_n_ji_def)
qed

lemma spec_IoU_bounds: "0 < spec_IoU i prs \<and> spec_IoU i prs \<le> 1"
proof -
  let ?n = "spec_n_ii i prs" and ?t = "spec_t_i i prs" and ?s = "spec_sum_n_ji i prs"
  have n: "0 < ?n" by (rule spec_n_ii_pos)
  have d: "?n \<le> ?t + ?s - ?n"
    using spec_n_ii_le_t_i[of i prs] spec_n_ii_le_sum_n_ji[of i prs] by linarith
  with n have dpos: "0 < ?t + ?s - ?n" by linarith
  from n dpos have "0 < ?n / (?t + ?s - ?n)" by simp
  moreover from d dpos have "?n / (?t + ?s - ?n) \<le> 1" by simp
  ultimately show ?thesis by (simp add: spec_IoU_def)
qed

lemma mean_of_unit_terms:
  assumes "1 \<le> n"
  shows "0 < (\<Sum>i\<in>{0..<n}. spec_IoU i prs) / real_of_int n
       \<and> (\<Sum>i\<in>{0..<n}. spec_IoU i prs) / real_of_int n \<le> 1"
proof -
  let ?S = "\<Sum>i\<in>{0..<n}. spec_IoU i prs"
  have ne: "{0..<n} \<noteq> {}" using assms by simp
  have "0 < ?S"
    by (rule sum_pos) (use ne spec_IoU_bounds in auto)
  moreover have "?S \<le> (\<Sum>i\<in>{0..<n}. 1)"
    by (rule sum_mono) (use spec_IoU_bounds in auto)
  then have "?S \<le> real_of_int n" using assms by simp
  ultimately show ?thesis using assms by simp
qed

text \<open>
  C10, as amended. When every zipped pair of prediction and ground truth has one shape and
  \<open>num_classes \<ge> 1\<close>, \<open>calculate_mean_iu\<close> returns, and its value is strictly greater
  than 0 and at most 1.
\<close>

theorem calculate_mean_iu_in_unit_interval:
  assumes "same_shapes (zip predictions gts)" and "1 \<le> num_classes"
  shows "\<exists>mean_iu. calculate_mean_iu predictions gts num_classes = Inr mean_iu
           \<and> 0 < mean_iu \<and> mean_iu \<le> 1"
proof -
  from assms(2) have nz: "num_classes \<noteq> 0" by simp
  have "calculate_mean_iu predictions gts num_classes
      = Inr ((\<Sum>i\<in>{0..<num_classes}. spec_IoU i (zip predictions gts))
               / real_of_int num_classes)"
    using calculate_mean_iu_same_shapes[OF assms(1) nz] by (simp add: sum_list_py_range)
  with mean_of_unit_terms[OF assms(2)] show ?thesis by simp
qed

theorem calculate_mean_iu_in_unit_interval_witness:
  "same_shapes (zip [\<lparr>shape = [3], data = [0, 1, 1]\<rparr>] [\<lparr>shape = [3], data = [0, 0, 1]\<rparr>])
   \<and> (1::int) \<le> 2
   \<and> (\<exists>mean_iu. calculate_mean_iu [\<lparr>shape = [3], data = [0, 1, 1]\<rparr>]
                    [\<lparr>shape = [3], data = [0, 0, 1]\<rparr>] 2 = Inr mean_iu
         \<and> 0 < mean_iu \<and> mean_iu \<le> 1)"
proof -
  have sh: "same_shapes (zip [\<lparr>shape = [3], data = [0, 1, 1]\<rparr>]
                             [\<lparr>shape = [3], data = [0, 0, 1::int]\<rparr>])"
    by (simp add: same_shapes_def)
  have ge: "(1::int) \<le> 2" by simp
  from calculate_mean_iu_in_unit_interval[OF sh ge] sh show ?thesis by simp
qed

text \<open>
  C10 as stated fails: a one-dimensional prediction of two elements selects whole rows of
  a ground truth of shape \<open>(2, 3)\<close>, so \<open>n_ii\<close> gains 6 where \<open>sum_n_ji\<close> gains 2, and
  the value returned for one class is \<open>(6 + epsilon) / (2 + epsilon)\<close>, close to 3.
\<close>

theorem calculate_mean_iu_exceeds_one_counterexample:
  "calculate_mean_iu [\<lparr>shape = [2], data = [0, 0]\<rparr>]
      [\<lparr>shape = [2, 3], data = [0, 0, 0, 0, 0, 0]\<rparr>] 1 = Inr ((epsilon + 6) / (epsilon + 2))
   \<and> 1 < (epsilon + 6) / (epsilon + 2)"
proof -
  have "0 < epsilon" by (rule epsilon_pos)
  then have "1 < (epsilon + 6) / (epsilon + 2)" by simp
  moreover have "calculate_mean_iu [\<lparr>shape = [2], data = [0, 0]\<rparr>]
      [\<lparr>shape = [2, 3], data = [0, 0, 0, 0, 0, 0]\<rparr>] 1 = Inr ((epsilon + 6) / (epsilon + 2))"
    by (simp add: calculate_mean_iu_def py_range_def class_iu_def bool_index_def np_eq_def
        np_sum_bool_def count_true_def)
  ultimately show ?thesis by simp
qed

section \<open>The mean-IoU calculator: a class nobody holds\<close>

lemma count_eq_absent: "i \<notin> set xs \<Longrightarrow> count_eq i xs = 0"
  by (induction xs) (auto simp: count_eq_def)

lemma sum_list_pairs_zero:
  "(\<And>p gt. (p, gt) \<in> set prs \<Longrightarrow> f p gt = (0::real)) \<Longrightarrow> (\<Sum>(p, gt)\<leftarrow>prs. f p gt) = 0"
  by (induction prs) auto

lemma absent_zip:
  assumes "absent i ps" and "absent i gs" and "(p, gt) \<in> set (zip ps gs)"
  shows "i \<notin> set (data p)" and "i \<notin> set (data gt)"
  using assms
  by (auto simp: absent_def list_all_iff dest: set_zip_leftD set_zip_rightD)

lemma spec_IoU_absent:
  assumes "absent i ps" and "absent i gs"
  shows "spec_IoU i (zip ps gs) = 1"
proof -
  note z = absent_zip[OF assms]
  have t: "(\<Sum>(p, gt)\<leftarrow>zip ps gs. real (count_eq i (data gt))) = 0"
    by (rule sum_list_pairs_zero) (simp add: z count_eq_absent)
  have s: "(\<Sum>(p, gt)\<leftarrow>zip ps gs. real (count_eq i (data p))) = 0"
    by (rule sum_list_pairs_zero) (simp add: z count_eq_absent)
  have n: "(\<Sum>(p, gt)\<leftarrow>zip ps gs. real (count_both i (data p) (data gt))) = 0"
  proof (rule sum_list_pairs_zero)
    fix p gt
    assume "(p, gt) \<in> set (zip ps gs)"
    then have "count_eq i (data p) = 0" by (simp add: z count_eq_absent)
    with count_both_le_p[of i "data p" "data gt"]
    show "real (count_both i (data p) (data gt)) = 0" by simp
  qed
  from epsilon_pos show ?thesis
    by (simp add: spec_IoU_def spec_n_ii_def spec_t_i_def spec_sum_n_ji_def t s n)
qed

text \<open>
  C4. For a class \<open>i\<close> of \<open>[0, num_classes)\<close> that no prediction and no ground truth
  holds, the per-class term of \<open>calculate_mean_iu\<close> is 1 (epsilon over epsilon), and the
  returned mean is \<open>1 / num_classes\<close> plus the other classes' share: the sum of the other
  classes' terms, divided by \<open>num_classes\<close>.
\<close>

theorem absent_class_iu_is_one:
  assumes "same_shapes (zip predictions gts)"
    and "absent i predictions" and "absent i gts"
    and "0 \<le> i" and "i < num_classes"
  shows "class_iu i (zip predictions gts) = Inr 1 \<and>
         (\<exists>others. iu_classes (remove1 i (py_range num_classes)) (zip predictions gts) 0
                      = Inr others
            \<and> calculate_mean_iu predictions gts num_classes
                = Inr (1 / real_of_int num_classes + others / real_of_int num_classes))"
proof -
  let ?prs = "zip predictions gts"
  have one: "spec_IoU i ?prs = 1" by (rule spec_IoU_absent) fact+
  have mem: "i \<in> set (py_range num_classes)" using assms(4,5) by (simp add: set_py_range)
  have split: "(\<Sum>j\<leftarrow>py_range num_classes. spec_IoU j ?prs)
      = 1 + (\<Sum>j\<leftarrow>remove1 i (py_range num_classes). spec_IoU j ?prs)"
    using sum_list_map_remove1[OF mem, of "\<lambda>j. spec_IoU j ?prs"] one by simp
  have nz: "num_classes \<noteq> 0" using assms(4,5) by simp
  have "class_iu i ?prs = Inr 1"
    using class_iu_same_shapes[OF assms(1), of i] one by simp
  moreover have "iu_classes (remove1 i (py_range num_classes)) ?prs 0
      = Inr (\<Sum>j\<leftarrow>remove1 i (py_range num_classes). spec_IoU j ?prs)"
    by (simp add: iu_classes_same_shapes[OF assms(1)])
  moreover have "calculate_mean_iu predictions gts num_classes
      = Inr (1 / real_of_int num_classes
          + (\<Sum>j\<leftarrow>remove1 i (py_range num_classes). spec_IoU j ?prs)
              / real_of_int num_classes)"
    using nz calculate_mean_iu_same_shapes[OF assms(1) nz]
    by (simp add: split add_divide_distrib)
  ultimately show ?thesis by simp
qed

theorem absent_class_iu_is_one_witness:
  "same_shapes (zip [\<lparr>shape = [2], data = [0, 0]\<rparr>] [\<lparr>shape = [2], data = [0, 2]\<rparr>])
   \<and> absent 1 [\<lparr>shape = [2], data = [0, 0]\<rparr>] \<and> absent 1 [\<lparr>shape = [2], data = [0, 2]\<rparr>]
   \<and> (0::int) \<le> 1 \<and> (1::int) < 3
   \<and> class_iu 1 (zip [\<lparr>shape = [2], data = [0, 0]\<rparr>] [\<lparr>shape = [2], data = [0, 2]\<rparr>]) = Inr 1
   \<and> (\<exists>others. iu_classes (remove1 1 (py_range 3))
                   (zip [\<lparr>shape = [2], data = [0, 0]\<rparr>] [\<lparr>shape = [2], data = [0, 2]\<rparr>]) 0
                  = Inr others
         \<and> calculate_mean_iu [\<lparr>shape = [2], data = [0, 0]\<rparr>]
              [\<lparr>shape = [2], data = [0, 2]\<rparr>] 3
            = Inr (1 / real_of_int 3 + others / real_of_int 3))"
proof -
  have sh: "same_shapes (zip [\<lparr>shape = [2], data = [0, 0]\<rparr>]
                             [\<lparr>shape = [2], data = [0, 2::int]\<rparr>])"
    by (simp add: same_shapes_def)
  have ap: "absent 1 [\<lparr>shape = [2], data = [0, 0]\<rparr>]"
    and ag: "absent 1 [\<lparr>shape = [2], data = [0, 2]\<rparr>]"
    by (simp_all add: absent_def)
  have lo: "(0::int) \<le> 1" and hi: "(1::int) < 3" by simp_all
  from absent_class_iu_is_one[OF sh ap ag lo hi] sh ap ag show ?thesis by simp
qed

section \<open>The training loop\<close>

lemma train_no_backward: "LossBackward \<notin> set (train train_loader)"
  by (induction train_loader) simp_all

text \<open>
  C7. The specification has every batch iteration run zero-grad, forward, loss, backward,
  optimizer step. \<open>train\<close> never calls backward: one batch gives zero-grad, forward, loss,
  optimizer step, and no training pass of any length holds a backward call.
\<close>

theorem train_never_calls_backward:
  "train [batch] = [ZeroGrad, NetForward, CriterionCall, OptimizerStep]
   \<and> train [batch] \<noteq> spec_batch_steps
   \<and> count_list (train train_loader) LossBackward = 0"
  by (simp add: spec_batch_steps_def count_list_0_iff train_no_backward)

lemma train_no_scheduler: "SchedulerStep \<notin> set (train train_loader)"
  by (induction train_loader) simp_all

lemma main_no_scheduler: "SchedulerStep \<notin> set (main train_loader max_epoch)"
  by (auto simp: main_def epoch_calls_def train_no_scheduler)

text \<open>
  C8. The specification has the learning-rate schedule advance once per epoch. \<open>main\<close>
  builds the scheduler once and never steps it, however many epochs run.
\<close>

theorem main_never_steps_scheduler:
  "count_list (main train_loader max_epoch) SchedulerStep = 0
   \<and> count_list (main train_loader max_epoch) MakeScheduler = 1"
proof -
  have "MakeScheduler \<notin> set (train loader)" for loader :: "'a list"
    by (induction loader) simp_all
  then have "MakeScheduler \<notin> set (concat (map (epoch_calls train_loader) cs))" for cs
    by (auto simp: epoch_calls_def)
  then have "count_list (concat (map (epoch_calls train_loader) cs)) MakeScheduler = 0" for cs
    by (simp add: count_list_0_iff)
  then have "count_list (main train_loader max_epoch) MakeScheduler = 1"
    by (simp add: main_def)
  then show ?thesis
    by (simp add: count_list_0_iff main_no_scheduler)
qed

section \<open>The validation driver\<close>

lemma validate_loop_single_float:
  "validate_loop calculate_mean_iu_value n ((predicted, labels) # rest) totals =
     (case unsqueeze1 predicted of
        Inl e \<Rightarrow> Inl e
      | Inr p \<Rightarrow>
     (case unsqueeze1 labels of
        Inl e \<Rightarrow> Inl e
      | Inr l \<Rightarrow>
     (case calculate_mean_iu [p] [l] n of
        Inl e \<Rightarrow> Inl e
      | Inr mean_iu \<Rightarrow> Inl TypeError)))"
  by (simp add: calculate_mean_iu_value_def split: sum.splits)

text \<open>
  C9. \<open>calculate_mean_iu\<close> of \<^verbatim>\<open>utils.py\<close> returns one float, and a float cannot be
  unpacked into six names: with that function, the validation loop raises on its first
  batch, whatever the batch, and so does \<open>validate\<close>; no batch binds six values.
\<close>

theorem validate_cannot_unpack_single_float:
  "unpack 6 (PyFloat mean_iu) = Inl TypeError
   \<and> isl (validate_loop calculate_mean_iu_value num_classes (batch # rest) totals)
   \<and> isl (validate calculate_mean_iu_value num_classes (batch # rest))"
proof -
  obtain predicted labels where b: "batch = (predicted, labels)" by (cases batch)
  have l: "isl (validate_loop calculate_mean_iu_value num_classes (batch # rest) s)" for s
    unfolding b validate_loop_single_float by (simp split: sum.splits)
  have "isl (validate calculate_mean_iu_value num_classes (batch # rest))"
    using l[of "[0, 0, 0, 0, 0, 0]"]
    by (cases "validate_loop calculate_mean_iu_value num_classes (batch # rest)
                 [0, 0, 0, 0, 0, 0]")
      (simp_all add: validate_def)
  with l show ?thesis by simp
qed

section \<open>The fast-histogram scorer: the means in closed form\<close>

lemma map2_map_map: "map2 F (map f xs) (map g xs) = map (\<lambda>x. F (f x) (g x)) xs"
  by (induction xs) simp_all

lemma foldl_np_add_Fin:
  "foldl np_add (Fin a) (map (\<lambda>x. Fin (f x)) xs) = Fin (a + sum_list (map f xs))"
  by (induction xs arbitrary: a) (simp_all add: add.assoc)

lemma np_sum_Fin: "np_sum (map (\<lambda>x. Fin (f x)) xs) = Fin (sum_list (map f xs))"
  by (simp add: np_sum_def foldl_np_add_Fin)

lemma np_div_NaN_iff: "np_div a b = NaN \<longleftrightarrow> a = 0 \<and> b = 0"
  by (simp add: np_div_def)

lemma nanmean_div:
  assumes "\<And>x. x \<in> set xs \<Longrightarrow> b x = 0 \<Longrightarrow> a x = 0"
  shows "nanmean (map (\<lambda>x. np_div (a x) (b x)) xs)
           = mean_over (filter (\<lambda>x. b x \<noteq> 0) xs) (\<lambda>x. a x / b x)"
proof -
  let ?g = "\<lambda>x. np_div (a x) (b x)"
  let ?ys = "filter (\<lambda>x. b x \<noteq> 0) xs"
  have f: "filter (\<lambda>y. y \<noteq> NaN) (map ?g xs) = map ?g (filter (\<lambda>x. ?g x \<noteq> NaN) xs)"
    by (simp add: filter_map comp_def)
  have "filter (\<lambda>x. ?g x \<noteq> NaN) xs = ?ys"
    by (rule filter_cong) (use assms in \<open>auto simp: np_div_NaN_iff\<close>)
  moreover have "map ?g ?ys = map (\<lambda>x. Fin (a x / b x)) ?ys"
    by (rule map_cong) (simp_all add: np_div_def)
  ultimately have "filter (\<lambda>y. y \<noteq> NaN) (map ?g xs) = map (\<lambda>x. Fin (a x / b x)) ?ys"
    using f by simp
  then show ?thesis
    by (simp add: nanmean_def np_sum_Fin np_div_count_def np_div_def mean_over_def)
qed

lemma np_select_map:
  "np_select (map P xs) (map f xs) = map f (filter P xs)"
  by (induction xs) (simp_all add: np_select_def)

lemma length_hist_row:
  assumes "length h = n * n" and "i < n"
  shows "length (hist_row h n i) = n"
proof -
  from assms(2) have "i * n + n \<le> n * n"
    by (metis Suc_leI mult_Suc mult_le_mono1 add.commute)
  with assms(1) show ?thesis by (simp add: hist_row_def)
qed

lemma sum_list_take_le: "sum_list (take k xs) \<le> sum_list (xs :: nat list)"
  by (metis append_take_drop_id le_add1 sum_list.append)

lemma sum_list_drop_le: "sum_list (drop k xs) \<le> sum_list (xs :: nat list)"
  by (metis append_take_drop_id le_add2 sum_list.append)

lemma true_count_le_total: "true_count h n i \<le> sum_list h"
  unfolding true_count_def hist_row_def
  by (rule order_trans[OF sum_list_take_le sum_list_drop_le])

lemma hits_le_true_count:
  assumes "length h = n * n" and "i < n"
  shows "hits h n i \<le> true_count h n i"
  unfolding hits_def true_count_def
  by (rule member_le_sum_list) (simp_all add: length_hist_row[OF assms] assms(2))

lemma hits_le_pred_count:
  assumes "i < n"
  shows "hits h n i \<le> pred_count h n i"
proof -
  have "hist_row h n i ! i \<in> set (map (\<lambda>k. hist_row h n k ! i) [0..<n])"
    using assms by auto
  then show ?thesis
    unfolding hits_def pred_count_def by (rule member_le_sum_list) simp_all
qed

lemma score_metrics_mean_acc:
  assumes "length h = n * n"
  shows "mean_acc (score_metrics h n)
           = mean_over (filter (\<lambda>i. 0 < true_count h n i) [0..<n]) (class_acc h n)"
proof -
  have "mean_acc (score_metrics h n)
      = nanmean (map (\<lambda>i. np_div (real (hits h n i)) (real (true_count h n i))) [0..<n])"
    by (simp add: score_metrics_def Let_def np_diag_def sum_axis1_def map2_map_map
        hits_def true_count_def comp_def)
  also have "\<dots> = mean_over (filter (\<lambda>i. real (true_count h n i) \<noteq> 0) [0..<n])
                      (\<lambda>i. real (hits h n i) / real (true_count h n i))"
    by (rule nanmean_div) (use hits_le_true_count[OF assms] in fastforce)
  finally show ?thesis by (simp add: class_acc_def[abs_def])
qed

lemma score_metrics_cls_iu:
  "cls_iu (score_metrics h n)
     = map (\<lambda>i. np_div (real (hits h n i))
                  (real (true_count h n i) + real (pred_count h n i) - real (hits h n i)))
         [0..<n]"
  by (simp add: score_metrics_def Let_def np_diag_def sum_axis1_def sum_axis0_def map2_map_map
      hits_def true_count_def pred_count_def comp_def)

lemma iou_denominator_zero:
  assumes "length h = n * n" and "i < n"
    and "real (true_count h n i) + real (pred_count h n i) - real (hits h n i) = 0"
  shows "true_count h n i = 0" and "pred_count h n i = 0" and "hits h n i = 0"
proof -
  have a: "hits h n i \<le> true_count h n i" by (rule hits_le_true_count[OF assms(1,2)])
  have b: "hits h n i \<le> pred_count h n i" by (rule hits_le_pred_count[OF assms(2)])
  from assms(3) have "real (true_count h n i + pred_count h n i) = real (hits h n i)"
    by simp
  then have "true_count h n i + pred_count h n i = hits h n i"
    by (simp only: of_nat_eq_iff)
  with a b show "true_count h n i = 0" and "pred_count h n i = 0" and "hits h n i = 0"
    by linarith+
qed

lemma score_metrics_mean_iou:
  assumes "length h = n * n"
  shows "mean_iou (score_metrics h n)
           = mean_over (filter (\<lambda>i. 0 < true_count h n i + pred_count h n i) [0..<n])
               (class_iou h n)"
proof -
  let ?den = "\<lambda>i. real (true_count h n i) + real (pred_count h n i) - real (hits h n i)"
  have "mean_iou (score_metrics h n) = nanmean (cls_iu (score_metrics h n))"
    by (simp add: score_metrics_def Let_def)
  also have "\<dots> = nanmean (map (\<lambda>i. np_div (real (hits h n i)) (?den i)) [0..<n])"
    by (simp only: score_metrics_cls_iu)
  also have "\<dots> = mean_over (filter (\<lambda>i. ?den i \<noteq> 0) [0..<n])
                      (\<lambda>i. real (hits h n i) / ?den i)"
  proof (rule nanmean_div)
    fix i assume "i \<in> set [0..<n]" and "?den i = 0"
    then have "hits h n i = 0" using iou_denominator_zero(3)[OF assms, of i] by simp
    then show "real (hits h n i) = 0" by simp
  qed
  also have "filter (\<lambda>i. ?den i \<noteq> 0) [0..<n]
      = filter (\<lambda>i. 0 < true_count h n i + pred_count h n i) [0..<n]"
  proof (rule filter_cong[OF refl])
    fix i assume "i \<in> set [0..<n]"
    then have i: "i < n" by simp
    have le: "hits h n i \<le> true_count h n i" by (rule hits_le_true_count[OF assms i])
    show "(?den i \<noteq> 0) = (0 < true_count h n i + pred_count h n i)"
    proof (cases "?den i = 0")
      case True
      from iou_denominator_zero(1,2)[OF assms i True] True show ?thesis by simp
    next
      case False
      have "true_count h n i + pred_count h n i \<noteq> 0"
      proof
        assume "true_count h n i + pred_count h n i = 0"
        then have "true_count h n i = 0" and "pred_count h n i = 0" by simp_all
        moreover from this le have "hits h n i = 0" by simp
        ultimately have "?den i = 0" by simp
        with False show False by contradiction
      qed
      with False show ?thesis by simp
    qed
  qed
  finally show ?thesis by (simp add: class_iou_def[abs_def])
qed

lemma score_metrics_freqw_acc:
  assumes "length h = n * n"
  shows "freqw_acc (score_metrics h n)
           = Fin (\<Sum>i\<leftarrow>filter (\<lambda>i. 0 < true_count h n i) [0..<n].
                    class_freq h n i * class_iou h n i)"
proof -
  let ?T = "real (sum_list h)"
  let ?den = "\<lambda>i. real (true_count h n i) + real (pred_count h n i) - real (hits h n i)"
  let ?freq = "\<lambda>i. np_div (real (true_count h n i)) ?T"
  let ?iu = "\<lambda>i. np_div (real (hits h n i)) (?den i)"
  let ?S = "filter (\<lambda>i. 0 < true_count h n i) [0..<n]"
  have gt0: "np_gt0 (?freq i) = (0 < true_count h n i)" for i
  proof (cases "sum_list h = 0")
    case True
    with true_count_le_total[of h n i] have "true_count h n i = 0" by linarith
    with True show ?thesis by (simp add: np_div_def del: sum_list_eq_0_iff)
  next
    case False
    then have "0 < real (sum_list h)" by (simp del: sum_list_eq_0_iff)
    then show ?thesis by (simp add: np_div_def zero_less_divide_iff del: sum_list_eq_0_iff)
  qed
  have sel: "filter (\<lambda>i. np_gt0 (?freq i)) [0..<n] = ?S"
    by (simp add: gt0)
  have "freqw_acc (score_metrics h n)
      = np_sum (map2 np_mul (np_select (map (\<lambda>i. np_gt0 (?freq i)) [0..<n]) (map ?freq [0..<n]))
                            (np_select (map (\<lambda>i. np_gt0 (?freq i)) [0..<n]) (map ?iu [0..<n])))"
    by (simp add: score_metrics_def Let_def np_diag_def sum_axis1_def sum_axis0_def map2_map_map
        hits_def true_count_def pred_count_def comp_def)
  also have "\<dots> = np_sum (map (\<lambda>i. np_mul (?freq i) (?iu i)) ?S)"
    by (simp only: np_select_map sel map2_map_map)
  also have "map (\<lambda>i. np_mul (?freq i) (?iu i)) ?S
      = map (\<lambda>i. Fin (class_freq h n i * class_iou h n i)) ?S"
  proof (rule map_cong[OF refl])
    fix i assume "i \<in> set ?S"
    then have i: "i < n" and pos: "0 < true_count h n i" by simp_all
    from pos true_count_le_total[of h n i] have "0 < sum_list h" by linarith
    then have T: "?T \<noteq> 0" by (simp del: sum_list_eq_0_iff)
    from pos iou_denominator_zero(1)[OF assms i] have d: "?den i \<noteq> 0" by auto
    from T d show "np_mul (?freq i) (?iu i) = Fin (class_freq h n i * class_iou h n i)"
      by (simp add: np_div_def class_freq_def class_iou_def del: sum_list_eq_0_iff)
  qed
  finally show ?thesis by (simp add: np_sum_Fin)
qed

lemma fast_hist_length:
  "fast_hist a b n_class = Inr h \<Longrightarrow> length h = nat n_class * nat n_class"
  by (auto simp: fast_hist_def Let_def reshape_square_def split: sum.splits if_splits)

lemma hist_loop_length:
  "hist_loop prs n_class h0 = Inr h \<Longrightarrow> length h0 = nat n_class * nat n_class
     \<Longrightarrow> length h = nat n_class * nat n_class"
proof (induction prs arbitrary: h0)
  case Nil
  then show ?case by simp
next
  case (Cons pr prs)
  obtain lt lp where pr: "pr = (lt, lp)" by (cases pr)
  from Cons.prems(1) pr obtain h1 where
    h1: "fast_hist (flatten lt) (flatten lp) n_class = Inr h1"
    and rest: "hist_loop prs n_class (map2 (+) h0 h1) = Inr h"
    by (auto split: sum.splits)
  from fast_hist_length[OF h1] Cons.prems(2)
  have "length (map2 (+) h0 h1) = nat n_class * nat n_class" by simp
  from Cons.IH[OF rest this] show ?case .
qed

text \<open>
  C6, as amended. Whenever \<open>scores\<close> returns, with \<open>hist\<close> the histogram its loop has
  accumulated: the mean accuracy is the mean of \<open>diagonal / row sum\<close> over the classes
  with a row sum above zero (not-a-number when there is none); the mean IoU is the mean of
  the per-class IoU over the classes whose row sum or column sum is above zero, so a class
  without true pixels is left out only when it is never predicted either; the
  frequency-weighted accuracy is the finite sum of \<open>frequency * IoU\<close> over the classes
  with a row sum (a frequency) above zero.
\<close>

theorem scores_nan_safe_means:
  assumes "scores label_trues label_preds n_class = Inr r"
  shows "\<exists>hist. hist_loop (zip label_trues label_preds) n_class
                  (replicate (nat n_class * nat n_class) 0) = Inr hist
     \<and> mean_acc r = mean_over (filter (\<lambda>i. 0 < true_count hist (nat n_class) i)
                                  [0..<nat n_class])
                       (class_acc hist (nat n_class))
     \<and> mean_iou r = mean_over (filter (\<lambda>i. 0 < true_count hist (nat n_class) i
                                              + pred_count hist (nat n_class) i)
                                  [0..<nat n_class])
                       (class_iou hist (nat n_class))
     \<and> freqw_acc r = Fin (\<Sum>i\<leftarrow>filter (\<lambda>i. 0 < true_count hist (nat n_class) i)
                                  [0..<nat n_class].
                            class_freq hist (nat n_class) i * class_iou hist (nat n_class) i)"
proof -
  from assms obtain hist where
    h: "hist_loop (zip label_trues label_preds) n_class
          (replicate (nat n_class * nat n_class) 0) = Inr hist"
    and r: "r = score_metrics hist (nat n_class)"
    by (auto simp: scores_def split: if_splits sum.splits)
  have len: "length hist = nat n_class * nat n_class"
    by (rule hist_loop_length[OF h]) simp
  show ?thesis
    unfolding r
    using h score_metrics_mean_acc[OF len] score_metrics_mean_iou[OF len]
      score_metrics_freqw_acc[OF len]
    by blast
qed

lemma wit_hist:
  "hist_loop (zip [\<lparr>shape = [3], data = [0, 1, 1]\<rparr>] [\<lparr>shape = [3], data = [0, 1, 0]\<rparr>]) 3
     (replicate (nat 3 * nat 3) 0) = Inr [1, 0, 0, 1, 1, 0, 0, 0, 0]"
  by (simp add: fast_hist_def flatten_def bool_index_def bincount_def bins_needed_def
      reshape_square_def Let_def count_true_def numeral_3_eq_3 upt_rec)

lemma wit_metrics:
  "score_metrics [1, 0, 0, 1, 1, 0, 0, 0, 0] 3
     = \<lparr>overall_acc = Fin (2 / 3), mean_acc = Fin (3 / 4), freqw_acc = Fin (1 / 2),
        mean_iou = Fin (1 / 2), cls_iu = [Fin (1 / 2), Fin (1 / 2), NaN]\<rparr>"
  by (simp add: score_metrics_def Let_def np_diag_def sum_axis1_def sum_axis0_def hist_row_def
      np_div_def nanmean_def np_sum_def np_div_count_def np_select_def
      numeral_3_eq_3 upt_rec)

theorem scores_nan_safe_means_witness:
  "scores [\<lparr>shape = [3], data = [0, 1, 1]\<rparr>] [\<lparr>shape = [3], data = [0, 1, 0]\<rparr>] 3
     = Inr \<lparr>overall_acc = Fin (2 / 3), mean_acc = Fin (3 / 4), freqw_acc = Fin (1 / 2),
            mean_iou = Fin (1 / 2), cls_iu = [Fin (1 / 2), Fin (1 / 2), NaN]\<rparr>
   \<and> (\<exists>hist. hist_loop (zip [\<lparr>shape = [3], data = [0, 1, 1]\<rparr>]
                              [\<lparr>shape = [3], data = [0, 1, 0]\<rparr>]) 3
                  (replicate (nat 3 * nat 3) 0) = Inr hist
        \<and> Fin (3 / 4) = mean_over (filter (\<lambda>i. 0 < true_count hist (nat 3) i) [0..<nat 3])
                           (class_acc hist (nat 3))
        \<and> Fin (1 / 2) = mean_over (filter (\<lambda>i. 0 < true_count hist (nat 3) i
                                                  + pred_count hist (nat 3) i) [0..<nat 3])
                           (class_iou hist (nat 3))
        \<and> Fin (1 / 2) = Fin (\<Sum>i\<leftarrow>filter (\<lambda>i. 0 < true_count hist (nat 3) i) [0..<nat 3].
                                class_freq hist (nat 3) i * class_iou hist (nat 3) i))"
proof -
  let ?r = "\<lparr>overall_acc = Fin (2 / 3), mean_acc = Fin (3 / 4), freqw_acc = Fin (1 / 2),
            mean_iou = Fin (1 / 2), cls_iu = [Fin (1 / 2), Fin (1 / 2), NaN]\<rparr>"
  have e: "scores [\<lparr>shape = [3], data = [0, 1, 1]\<rparr>] [\<lparr>shape = [3], data = [0, 1, 0]\<rparr>] 3
      = Inr ?r"
    using wit_hist wit_metrics by (simp add: scores_def)
  from scores_nan_safe_means[OF e] e show ?thesis by simp
qed

text \<open>
  C6 as stated fails for the mean IoU. Two pixels of true class 0, predicted 0 and 1, with
  two classes: class 1 has no true pixel (row sum 0) but is predicted once, its IoU is
  \<open>0 / 1 = 0\<close>, a number, and it is counted: the mean IoU is \<open>(1/2 + 0) / 2 = 1/4\<close>,
  where the mean over the classes with true pixels would be \<open>1/2\<close>.
\<close>

lemma ex_hist:
  "hist_loop (zip [\<lparr>shape = [1, 2], data = [0, 0]\<rparr>] [\<lparr>shape = [1, 2], data = [0, 1]\<rparr>]) 2
     (replicate (nat 2 * nat 2) 0) = Inr [1, 1, 0, 0]"
  by (simp add: fast_hist_def flatten_def bool_index_def bincount_def bins_needed_def
      reshape_square_def Let_def count_true_def numeral_2_eq_2 upt_rec)

lemma ex_metrics:
  "score_metrics [1, 1, 0, 0] 2
     = \<lparr>overall_acc = Fin (1 / 2), mean_acc = Fin (1 / 2), freqw_acc = Fin (1 / 2),
        mean_iou = Fin (1 / 4), cls_iu = [Fin (1 / 2), Fin 0]\<rparr>"
  by (simp add: score_metrics_def Let_def np_diag_def sum_axis1_def sum_axis0_def hist_row_def
      np_div_def nanmean_def np_sum_def np_div_count_def np_select_def
      numeral_2_eq_2 upt_rec)

lemma ex_scores:
  "scores [\<lparr>shape = [1, 2], data = [0, 0]\<rparr>] [\<lparr>shape = [1, 2], data = [0, 1]\<rparr>] 2
     = Inr \<lparr>overall_acc = Fin (1 / 2), mean_acc = Fin (1 / 2), freqw_acc = Fin (1 / 2),
        mean_iou = Fin (1 / 4), cls_iu = [Fin (1 / 2), Fin 0]\<rparr>"
  using ex_hist ex_metrics by (simp add: scores_def)

theorem scores_zero_support_counted_counterexample:
  "scores [\<lparr>shape = [1, 2], data = [0, 0]\<rparr>] [\<lparr>shape = [1, 2], data = [0, 1]\<rparr>] 2
     = Inr \<lparr>overall_acc = Fin (1 / 2), mean_acc = Fin (1 / 2), freqw_acc = Fin (1 / 2),
        mean_iou = Fin (1 / 4), cls_iu = [Fin (1 / 2), Fin 0]\<rparr>
   \<and> hist_loop (zip [\<lparr>shape = [1, 2], data = [0, 0]\<rparr>] [\<lparr>shape = [1, 2], data = [0, 1]\<rparr>]) 2
       (replicate (nat 2 * nat 2) 0) = Inr [1, 1, 0, 0]
   \<and> true_count [1, 1, 0, 0] 2 1 = 0
   \<and> mean_over (filter (\<lambda>i. 0 < true_count [1, 1, 0, 0] 2 i) [0..<2]) (class_iou [1, 1, 0, 0] 2)
       = Fin (1 / 2)"
proof -
  have t0: "true_count [1, 1, 0, 0] 2 0 = 2" and t1: "true_count [1, 1, 0, 0] 2 1 = 0"
    by (simp_all add: true_count_def hist_row_def)
  have "class_iou [1, 1, 0, 0] 2 0 = 1 / 2"
    by (simp add: class_iou_def hits_def true_count_def pred_count_def hist_row_def
        numeral_2_eq_2 upt_rec)
  then have "mean_over (filter (\<lambda>i. 0 < true_count [1, 1, 0, 0] 2 i) [0..<2])
               (class_iou [1, 1, 0, 0] 2) = Fin (1 / 2)"
    using t0 t1 by (simp add: mean_over_def numeral_2_eq_2 upt_rec)
  with ex_scores ex_hist t1 show ?thesis by simp
qed

section \<open>The fast-histogram scorer on identical maps\<close>

lemma select_blocks_all:
  "list_all P xs \<Longrightarrow> select_blocks (Suc 0) (map P xs) xs = xs"
proof -
  have "list_all P xs \<Longrightarrow> select_blocks (Suc 0) (map P xs) (xs @ ys) = xs" for ys
    by (induction xs) simp_all
  from this[of "[]"] show "list_all P xs \<Longrightarrow> ?thesis" by simp
qed

lemma bins_needed_le:
  "list_all (\<lambda>x. nat (x + 1) \<le> m) xs \<Longrightarrow> bins_needed xs \<le> m"
proof -
  have "list_all (\<lambda>x. nat (x + 1) \<le> m) xs \<Longrightarrow> b \<le> m
          \<Longrightarrow> fold (\<lambda>x m. max (nat (x + 1)) m) xs b \<le> m" for b
    by (induction xs arbitrary: b) simp_all
  then show "list_all (\<lambda>x. nat (x + 1) \<le> m) xs \<Longrightarrow> ?thesis"
    by (simp add: bins_needed_def)
qed

lemma diag_index_bounds:
  assumes "in_range n a" and "x \<in> set (diag_index n a)"
  shows "0 \<le> x" and "x + 1 \<le> n * n"
proof -
  from assms obtain v where v: "v \<in> set (data a)" and x: "x = n * v + v"
    by (auto simp: diag_index_def)
  from assms(1) v have r: "0 \<le> v" "v < n" by (auto simp: in_range_def list_all_iff)
  then have n: "0 < n" by simp
  from r n show "0 \<le> x" by (simp add: x)
  have "n * v \<le> n * (n - 1)" using r n by (intro mult_left_mono) simp_all
  then have "n * v + v \<le> n * (n - 1) + (n - 1)" using r by linarith
  also have "\<dots> = n * n - 1" by (simp add: algebra_simps)
  finally show "x + 1 \<le> n * n" by (simp add: x)
qed

lemma fast_hist_identical:
  assumes "in_range n a" and "0 \<le> n"
  shows "fast_hist (flatten a) (flatten a) n
           = Inr (map (\<lambda>k. count_list (diag_index n a) (int k)) [0..<nat n * nat n])"
proof -
  let ?P = "\<lambda>v. 0 \<le> v \<and> v < n"
  have all: "list_all ?P (data a)" using assms by (simp add: in_range_def)
  have sel: "bool_index (flatten a) \<lparr>shape = shape (flatten a), data = map ?P (data (flatten a))\<rparr>
      = Inr \<lparr>shape = [count_true (map ?P (data a))], data = data a\<rparr>"
    by (simp add: bool_index_def flatten_def select_blocks_all[OF all])
  have idx: "map2 (\<lambda>t p. n * t + p) (data a) (data a) = diag_index n a"
    by (simp add: diag_index_def zip_same_conv_map)
  have nonneg: "\<not> list_ex (\<lambda>x. x < 0) (diag_index n a)"
    using diag_index_bounds(1)[OF assms(1)] by (fastforce simp: list_ex_iff)
  have "list_all (\<lambda>x. nat (x + 1) \<le> nat (n * n)) (diag_index n a)"
    using diag_index_bounds(2)[OF assms(1)] by (fastforce simp: list_all_iff)
  then have "bins_needed (diag_index n a) \<le> nat (n * n)" by (rule bins_needed_le)
  then have mx: "max (nat (n * n)) (bins_needed (diag_index n a)) = nat (n * n)" by simp
  have bc: "bincount (diag_index n a) (nat (n * n))
      = Inr (map (\<lambda>k. count_list (diag_index n a) (int k)) [0..<nat (n * n)])"
    by (simp add: bincount_def nonneg mx)
  have len: "nat (n * n) = nat n * nat n"
    using assms(2) by (simp add: nat_mult_distrib)
  show ?thesis
    unfolding fast_hist_def Let_def sel
    by (simp add: idx bc[unfolded len] reshape_square_def len)
qed

lemma map2_add_upt:
  "length h0 = m \<Longrightarrow> map2 (+) h0 (map g [0..<m]) = map (\<lambda>k. h0 ! k + g k) [0..<m]"
  by (rule nth_equalityI) simp_all

lemma hist_loop_identical:
  assumes "list_all (in_range n) maps" and "0 \<le> n" and "length h0 = nat n * nat n"
  shows "hist_loop (zip maps maps) n h0
           = Inr (map (\<lambda>k. h0 ! k + diag_hist n maps k) [0..<nat n * nat n])"
  using assms(1,3)
proof (induction maps arbitrary: h0)
  case Nil
  have "map ((!) h0) [0..<nat n * nat n] = h0"
    by (metis map_nth Nil.prems(2))
  then show ?case by (simp add: diag_hist_def)
next
  case (Cons a maps)
  from Cons.prems(1) have a: "in_range n a" and rest: "list_all (in_range n) maps" by simp_all
  let ?h1 = "map (\<lambda>k. h0 ! k + count_list (diag_index n a) (int k)) [0..<nat n * nat n]"
  have step: "map2 (+) h0 (map (\<lambda>k. count_list (diag_index n a) (int k)) [0..<nat n * nat n])
      = ?h1"
    by (rule map2_add_upt[OF Cons.prems(2)])
  have len: "length ?h1 = nat n * nat n" by simp
  have "hist_loop (zip (a # maps) (a # maps)) n h0 = hist_loop (zip maps maps) n ?h1"
    by (simp add: fast_hist_identical[OF a assms(2)] step del: upt_Suc)
  also have "\<dots> = Inr (map (\<lambda>k. ?h1 ! k + diag_hist n maps k) [0..<nat n * nat n])"
    by (rule Cons.IH[OF rest len])
  also have "map (\<lambda>k. ?h1 ! k + diag_hist n maps k) [0..<nat n * nat n]
      = map (\<lambda>k. h0 ! k + diag_hist n (a # maps) k) [0..<nat n * nat n]"
    by (rule map_cong) (simp_all add: diag_hist_def)
  finally show ?case .
qed

lemma hist_loop_identical_zero:
  assumes "list_all (in_range n) maps" and "0 \<le> n"
  shows "hist_loop (zip maps maps) n (replicate (nat n * nat n) 0)
           = Inr (map (diag_hist n maps) [0..<nat n * nat n])"
proof -
  have "hist_loop (zip maps maps) n (replicate (nat n * nat n) 0)
      = Inr (map (\<lambda>k. replicate (nat n * nat n) 0 ! k + diag_hist n maps k)
               [0..<nat n * nat n])"
    by (rule hist_loop_identical[OF assms]) simp
  also have "map (\<lambda>k. replicate (nat n * nat n) 0 ! k + diag_hist n maps k) [0..<nat n * nat n]
      = map (diag_hist n maps) [0..<nat n * nat n]"
    by (rule map_cong) simp_all
  finally show ?thesis .
qed

lemma base_n_unique:
  fixes n v i j :: int
  assumes "0 \<le> v" "v < n" "0 \<le> j" "j < n"
  shows "n * v + v = n * i + j \<longleftrightarrow> v = i \<and> v = j"
proof
  assume eq: "n * v + v = n * i + j"
  have "(n * v + v) div n = v" using assms(1,2) by simp
  moreover have "(n * i + j) div n = i" using assms(3,4) by simp
  ultimately have vi: "v = i" using eq by simp
  with eq show "v = i \<and> v = j" by simp
next
  assume "v = i \<and> v = j"
  then show "n * v + v = n * i + j" by simp
qed

lemma count_diag_index:
  assumes "in_range n a" and "i < nat n" and "j < nat n"
  shows "count_list (diag_index n a) (int (i * nat n + j))
           = (if i = j then count_list (data a) (int i) else 0)"
proof -
  from assms(2) have n: "0 < n" by simp
  then have k: "int (i * nat n + j) = n * int i + int j" by (simp add: mult.commute)
  have j: "0 \<le> int j" "int j < n" using assms(3) by simp_all
  have "list_all (\<lambda>v. 0 \<le> v \<and> v < n) xs \<Longrightarrow>
        count_list (map (\<lambda>v. n * v + v) xs) (n * int i + int j)
          = (if i = j then count_list xs (int i) else 0)" for xs
  proof (induction xs)
    case Nil
    then show ?case by simp
  next
    case (Cons v xs)
    then have v: "0 \<le> v" "v < n" by simp_all
    from base_n_unique[OF v j, of "int i"]
    have "(n * v + v = n * int i + int j) = (v = int i \<and> i = j)" by auto
    with Cons show ?case by auto
  qed
  from this[of "data a"] assms(1)
  have "count_list (diag_index n a) (n * int i + int j)
          = (if i = j then count_list (data a) (int i) else 0)"
    unfolding diag_index_def in_range_def by blast
  then show ?thesis by (simp only: k)
qed

lemma diag_hist_entry:
  assumes "list_all (in_range n) maps" and "i < nat n" and "j < nat n"
  shows "diag_hist n maps (i * nat n + j)
           = (if i = j then (\<Sum>a\<leftarrow>maps. count_list (data a) (int i)) else 0)"
proof -
  have "map (\<lambda>a. count_list (diag_index n a) (int (i * nat n + j))) maps
      = map (\<lambda>a. if i = j then count_list (data a) (int i) else 0) maps"
  proof (rule map_cong[OF refl])
    fix a assume "a \<in> set maps"
    with assms(1) have "in_range n a" by (simp add: list_all_iff)
    then show "count_list (diag_index n a) (int (i * nat n + j))
        = (if i = j then count_list (data a) (int i) else 0)"
      by (rule count_diag_index[OF _ assms(2,3)])
  qed
  then show ?thesis by (simp only: diag_hist_def) (simp add: sum_list_0)
qed

lemma hist_row_map:
  assumes "i < n"
  shows "hist_row (map g [0..<n * n]) n i = map (\<lambda>j. g (i * n + j)) [0..<n]"
proof -
  from assms have le: "i * n + n \<le> n * n"
    by (metis Suc_leI mult_Suc mult_le_mono1 add.commute)
  have "take n (drop (i * n) [0..<n * n]) = [i * n..<i * n + n]"
    using le by (simp add: drop_upt take_upt add.commute)
  also have "\<dots> = map (\<lambda>j. i * n + j) [0..<n]"
    using map_add_upt[of "i * n" n] by (simp add: add.commute)
  finally have t: "take n (drop (i * n) [0..<n * n]) = map (\<lambda>j. i * n + j) [0..<n]" .
  have "hist_row (map g [0..<n * n]) n i = map g (take n (drop (i * n) [0..<n * n]))"
    by (simp only: hist_row_def take_map drop_map)
  also have "\<dots> = map (\<lambda>j. g (i * n + j)) [0..<n]"
    by (simp only: t map_map comp_def)
  finally show ?thesis .
qed

lemma sum_list_single:
  assumes "j < n"
  shows "(\<Sum>i\<leftarrow>[0..<n]. if i = j then c else 0) = (c::nat)"
proof -
  have "(\<Sum>i\<leftarrow>[0..<n]. if i = j then c else 0) = (\<Sum>i\<in>{0..<n}. if i = j then c else 0)"
    by (simp add: interv_sum_list_conv_sum_set_nat)
  also have "\<dots> = c" using assms by simp
  finally show ?thesis .
qed

lemma sum_list_single':
  assumes "j < n"
  shows "(\<Sum>i\<leftarrow>[0..<n]. if j = i then c else 0) = (c::nat)"
proof -
  have "(\<lambda>i. if j = i then c else 0) = (\<lambda>i. if i = j then c else 0)" by auto
  with sum_list_single[OF assms, of c] show ?thesis by simp
qed

lemma identical_hist_counts:
  assumes "list_all (in_range n) maps" and "i < nat n"
  defines "H \<equiv> map (diag_hist n maps) [0..<nat n * nat n]"
  shows "hits H (nat n) i = class_pixels maps i"
    and "true_count H (nat n) i = class_pixels maps i"
    and "pred_count H (nat n) i = class_pixels maps i"
proof -
  let ?N = "nat n"
  have row: "hist_row H ?N k = map (\<lambda>j. if k = j then class_pixels maps k else 0) [0..<?N]"
    if "k < ?N" for k
  proof -
    have "hist_row H ?N k = map (\<lambda>j. diag_hist n maps (k * ?N + j)) [0..<?N]"
      unfolding H_def by (rule hist_row_map[OF that])
    also have "\<dots> = map (\<lambda>j. if k = j then class_pixels maps k else 0) [0..<?N]"
      by (rule map_cong[OF refl])
        (simp add: diag_hist_entry[OF assms(1) that] class_pixels_def)
    finally show ?thesis .
  qed
  show "hits H ?N i = class_pixels maps i"
    using assms(2) by (simp add: hits_def row[OF assms(2)])
  show "true_count H ?N i = class_pixels maps i"
    by (simp add: true_count_def row[OF assms(2)] sum_list_single'[OF assms(2)])
  have col: "map (\<lambda>k. hist_row H ?N k ! i) [0..<?N]
      = map (\<lambda>k. if k = i then class_pixels maps i else 0) [0..<?N]"
  proof (rule map_cong[OF refl])
    fix k assume "k \<in> set [0..<?N]"
    then have k: "k < ?N" by simp
    show "hist_row H ?N k ! i = (if k = i then class_pixels maps i else 0)"
      using assms(2) by (simp add: row[OF k])
  qed
  show "pred_count H ?N i = class_pixels maps i"
    unfolding pred_count_def col by (rule sum_list_single[OF assms(2)])
qed

lemma sum_list_rows:
  "length h = m * n \<Longrightarrow> sum_list h = (\<Sum>i\<leftarrow>[0..<m]. sum_list (take n (drop (i * n) h)))"
proof (induction m arbitrary: h)
  case 0
  then show ?case by simp
next
  case (Suc m)
  have len: "length (take (m * n) h) = m * n" using Suc.prems by simp
  have "sum_list h = sum_list (take (m * n) h) + sum_list (drop (m * n) h)"
    by (metis append_take_drop_id sum_list.append)
  also have "sum_list (take (m * n) h)
      = (\<Sum>i\<leftarrow>[0..<m]. sum_list (take n (drop (i * n) (take (m * n) h))))"
    by (rule Suc.IH[OF len])
  also have "map (\<lambda>i. sum_list (take n (drop (i * n) (take (m * n) h)))) [0..<m]
      = map (\<lambda>i. sum_list (take n (drop (i * n) h))) [0..<m]"
  proof (rule map_cong[OF refl])
    fix i assume "i \<in> set [0..<m]"
    then have "i * n + n \<le> m * n"
      by (metis Suc_leI atLeastLessThan_iff mult_Suc mult_le_mono1 add.commute set_upt)
    then have "take n (drop (i * n) (take (m * n) h)) = take n (drop (i * n) h)"
      by (simp add: drop_take min_def)
    then show "sum_list (take n (drop (i * n) (take (m * n) h)))
        = sum_list (take n (drop (i * n) h))" by simp
  qed
  also have "drop (m * n) h = take n (drop (m * n) h)"
    using Suc.prems by simp
  finally show ?case by simp
qed

lemma total_is_sum_of_rows:
  assumes "length h = n * n"
  shows "sum_list h = (\<Sum>i\<leftarrow>[0..<n]. true_count h n i)"
  using sum_list_rows[OF assms] by (simp add: true_count_def hist_row_def)

lemma class_pixels_pos:
  assumes "all_classes_present n maps" and "i < nat n"
  shows "0 < class_pixels maps i"
proof -
  from assms(2) have "int i \<in> set (py_range n)" by (simp add: py_range_def)
  with assms(1) obtain a where a: "a \<in> set maps" and i: "int i \<in> set (data a)"
    by (auto simp: all_classes_present_def list_all_iff list_ex_iff)
  from i have "count_list (data a) (int i) \<noteq> 0" by (simp only: count_list_0_iff not_not)
  then have "0 < count_list (data a) (int i)" by simp
  moreover have "count_list (data a) (int i) \<le> class_pixels maps i"
    unfolding class_pixels_def by (rule member_le_sum_list) (use a in auto)
  ultimately show ?thesis by linarith
qed

lemma sum_list_real: "sum_list (map real xs) = real (sum_list xs)"
  by (induction xs) simp_all

lemma sum_list_real_map: "sum_list (map real (map f xs)) = real (sum_list (map f xs))"
  by (rule sum_list_real)

lemma mean_over_ones:
  assumes "cs \<noteq> []" and "\<And>i. i \<in> set cs \<Longrightarrow> f i = 1"
  shows "mean_over cs f = Fin 1"
proof -
  have "map f cs = map (\<lambda>_. 1) cs" by (rule map_cong) (simp_all add: assms(2))
  then have "sum_list (map f cs) = sum_list (map (\<lambda>_. 1::real) cs)" by (simp only:)
  also have "\<dots> = real (length cs)" by (induction cs) simp_all
  finally have "sum_list (map f cs) = real (length cs)" .
  with assms(1) show ?thesis by (simp add: mean_over_def)
qed

text \<open>
  C5. For label maps compared with themselves, whose values all lie in \<open>[0, n_class)\<close>,
  in which every class of \<open>[0, n_class)\<close> occurs at least once, and which are not empty
  (they hold at least one pixel), \<open>scores\<close> returns overall accuracy 1 and mean IoU 1.
\<close>

theorem scores_identical_maps_perfect:
  assumes "list_all (in_range n_class) label_trues"
    and "all_classes_present n_class label_trues"
    and "has_pixel label_trues"
  shows "\<exists>r. scores label_trues label_trues n_class = Inr r
           \<and> overall_acc r = Fin 1 \<and> mean_iou r = Fin 1"
proof -
  let ?N = "nat n_class"
  let ?H = "map (diag_hist n_class label_trues) [0..<?N * ?N]"
  from assms(3) obtain a v where "a \<in> set label_trues" and "v \<in> set (data a)"
    by (auto simp: has_pixel_def list_ex_iff dest: hd_in_set)
  with assms(1) have "0 \<le> v" and "v < n_class"
    by (auto simp: in_range_def list_all_iff)
  then have n: "0 < n_class" by simp
  then have N: "0 < ?N" by simp
  have len: "length ?H = ?N * ?N" by simp
  have sc: "scores label_trues label_trues n_class = Inr (score_metrics ?H ?N)"
    using n by (simp add: scores_def hist_loop_identical_zero[OF assms(1)])
  note cnt = identical_hist_counts[OF assms(1)]
  note pos = class_pixels_pos[OF assms(2)]
  \<comment> \<open>overall accuracy\<close>
  have "np_diag ?H ?N = map (class_pixels label_trues) [0..<?N]"
    unfolding np_diag_def
    by (rule map_cong[OF refl]) (use cnt(1) in \<open>simp add: hits_def\<close>)
  then have tr: "sum_list (map real (np_diag ?H ?N))
      = real (\<Sum>i\<leftarrow>[0..<?N]. class_pixels label_trues i)"
    by (simp only: sum_list_real_map)
  have rows: "map (true_count ?H ?N) [0..<?N] = map (class_pixels label_trues) [0..<?N]"
    by (rule map_cong[OF refl]) (use cnt(2) in simp)
  have tot: "sum_list ?H = (\<Sum>i\<leftarrow>[0..<?N]. class_pixels label_trues i)"
    using total_is_sum_of_rows[OF len] by (simp only: rows)
  have "class_pixels label_trues 0 \<le> (\<Sum>i\<leftarrow>[0..<?N]. class_pixels label_trues i)"
    by (rule member_le_sum_list) (use N in auto)
  with pos[OF N] have S: "0 < (\<Sum>i\<leftarrow>[0..<?N]. class_pixels label_trues i)" by linarith
  have acc: "overall_acc (score_metrics ?H ?N) = Fin 1"
    using S by (simp add: score_metrics_def Let_def tr tot np_div_def del: sum_list_eq_0_iff)
  \<comment> \<open>mean IoU\<close>
  have all: "filter (\<lambda>i. 0 < true_count ?H ?N i + pred_count ?H ?N i) [0..<?N] = [0..<?N]"
    by (rule filter_True) (use cnt(2) pos in simp)
  have one: "class_iou ?H ?N i = 1" if "i \<in> set [0..<?N]" for i
  proof -
    from that have i: "i < ?N" by simp
    from pos[OF i] show ?thesis
      by (simp add: class_iou_def cnt(1)[OF i] cnt(2)[OF i] cnt(3)[OF i])
  qed
  have "mean_iou (score_metrics ?H ?N) = mean_over [0..<?N] (class_iou ?H ?N)"
    using score_metrics_mean_iou[OF len] by (simp only: all)
  also have "\<dots> = Fin 1"
    by (rule mean_over_ones) (use N one in auto)
  finally have miou: "mean_iou (score_metrics ?H ?N) = Fin 1" .
  from sc acc miou show ?thesis by blast
qed

theorem scores_identical_maps_perfect_witness:
  "list_all (in_range 2) [\<lparr>shape = [1, 3], data = [0, 1, 1]\<rparr>]
   \<and> all_classes_present 2 [\<lparr>shape = [1, 3], data = [0, 1, 1]\<rparr>]
   \<and> has_pixel [\<lparr>shape = [1, 3], data = [0, 1, 1]\<rparr>]
   \<and> (\<exists>r. scores [\<lparr>shape = [1, 3], data = [0, 1, 1]\<rparr>]
               [\<lparr>shape = [1, 3], data = [0, 1, 1]\<rparr>] 2 = Inr r
          \<and> overall_acc r = Fin 1 \<and> mean_iou r = Fin 1)"
proof -
  have a: "list_all (in_range 2) [\<lparr>shape = [1, 3], data = [0, 1, 1]\<rparr>]"
    by (simp add: in_range_def)
  have b: "all_classes_present 2 [\<lparr>shape = [1, 3], data = [0, 1, 1]\<rparr>]"
    by (simp add: all_classes_present_def py_range_def numeral_2_eq_2 upt_rec)
  have c: "has_pixel [\<lparr>shape = [1, 3], data = [0, 1, 1]\<rparr>]"
    by (simp add: has_pixel_def)
  from scores_identical_maps_perfect[OF a b c] a b c show ?thesis by simp
qed

section \<open>The focal loss: the sigmoid and its logarithms\<close>














section \<open>The focal loss: forward and backward in closed form\<close>




section \<open>The focal loss: the derivative of the forward loss\<close>









lemma sigmoid_zero: "sigmoid 0 = 1 / 2"
  by (simp add: sigmoid_def)


















section \<open>The focal loss at one point\<close>

text \<open>Bounds of \<open>ln 2\<close> from the exponential series: \<open>0.6928 < ln 2 < 0.6936\<close>.\<close>

lemma ln2_upper: "ln (2::real) < 867 / 1250"
proof -
  let ?x = "867 / 1250 :: real"
  obtain t where e: "exp ?x = (\<Sum>m<7. ?x ^ m / fact m) + (exp t / fact 7) * ?x ^ 7"
    using Maclaurin_exp_le[of ?x 7] by blast
  have "0 \<le> (exp t / fact 7) * ?x ^ 7" by simp
  with e have "(\<Sum>m<7. ?x ^ m / fact m) \<le> exp ?x" by linarith
  moreover have "2 < (\<Sum>m<7. ?x ^ m / fact m)"
    by (simp add: eval_nat_numeral fact_numeral)
  ultimately have "exp (ln 2) < exp ?x" by simp
  then show ?thesis by (simp only: exp_less_cancel_iff)
qed

lemma ln2_lower: "433 / 625 < ln (2::real)"
proof -
  let ?x = "433 / 625 :: real"
  obtain t where t: "\<bar>t\<bar> \<le> \<bar>?x\<bar>"
    and e: "exp ?x = (\<Sum>m<7. ?x ^ m / fact m) + (exp t / fact 7) * ?x ^ 7"
    using Maclaurin_exp_le[of ?x 7] by blast
  from t have "t \<le> 1" by simp
  then have "exp t \<le> exp 1" by simp
  with exp_le have et: "exp t \<le> 3" by linarith
  have "(exp t / fact 7) * ?x ^ 7 \<le> (3 / fact 7) * ?x ^ 7"
    using et by (intro mult_right_mono divide_right_mono) simp_all
  with e have "exp ?x \<le> (\<Sum>m<7. ?x ^ m / fact m) + (3 / fact 7) * ?x ^ 7" by linarith
  moreover have "(\<Sum>m<7. ?x ^ m / fact m) + (3 / fact 7) * ?x ^ 7 < 2"
    by (simp add: eval_nat_numeral fact_numeral)
  ultimately have "exp ?x < exp (ln 2)" by simp
  then show ?thesis by (simp only: exp_less_cancel_iff)
qed

lemma forward_literal:
  "FocalSigmoidLossFuncV2_forward 0 1 (1 / 4) 2
     = Some (ln 2 / 16, \<lparr>ctx_coeff = - (1 / 4), ctx_probs = 1 / 2, ctx_ce = - ln 2 / 4,
                          ctx_label = 1, ctx_gamma = 2, ctx_alpha = 1 / 4\<rparr>)"
proof -
  have "(1 / 2 :: real) powr 2 = 1 / 4"
    by (simp add: powr_numeral power2_eq_square)
  then show ?thesis
    by (simp add: FocalSigmoidLossFuncV2_forward_def Let_def sigmoid_zero abs_pow_def
        softplus_def ln_div)
qed

text \<open>
  C3, as amended. At \<open>logits = 0\<close>, \<open>label = 1\<close>, \<open>alpha = 0.25\<close>, \<open>gamma = 2\<close> the forward
  returns the loss \<open>ln 2 / 16\<close> with \<open>coeff = - (1 - 0.5)^2 = - 0.25\<close> and
  \<open>ce = 0.25 * ln 0.5 = - ln 2 / 4\<close>; \<open>ce\<close> is within \<open>0.0001\<close> of \<open>- 0.1733\<close> and the loss
  is within \<open>0.0001\<close> of \<open>+ 0.0433\<close>.
\<close>

theorem forward_literal_value:
  "FocalSigmoidLossFuncV2_forward 0 1 (1 / 4) 2
     = Some (ln 2 / 16, \<lparr>ctx_coeff = - (1 / 4), ctx_probs = 1 / 2, ctx_ce = - ln 2 / 4,
                          ctx_label = 1, ctx_gamma = 2, ctx_alpha = 1 / 4\<rparr>)
   \<and> \<bar>- ln 2 / 4 - (- 1733 / 10000)\<bar> < (1 / 10000 :: real)
   \<and> \<bar>ln 2 / 16 - 433 / 10000\<bar> < (1 / 10000 :: real)"
proof -
  have a: "\<bar>- ln 2 / 4 - (- 1733 / 10000)\<bar> < (1 / 10000 :: real)"
    using ln2_lower ln2_upper by linarith
  have b: "\<bar>ln 2 / 16 - 433 / 10000\<bar> < (1 / 10000 :: real)"
    using ln2_lower ln2_upper by linarith
  from forward_literal a b show ?thesis by blast
qed

text \<open>
  C3 as stated fails in the signs: the code negates the power, so \<open>coeff\<close> is \<open>- 0.25\<close>
  and not \<open>0.25\<close>, and the loss \<open>ce * coeff\<close> is positive, not within \<open>0.0001\<close> of
  \<open>- 0.0433\<close>.
\<close>

theorem forward_literal_sign_counterexample:
  "FocalSigmoidLossFuncV2_forward 0 1 (1 / 4) 2
     = Some (ln 2 / 16, \<lparr>ctx_coeff = - (1 / 4), ctx_probs = 1 / 2, ctx_ce = - ln 2 / 4,
                          ctx_label = 1, ctx_gamma = 2, ctx_alpha = 1 / 4\<rparr>)
   \<and> - (1 / 4) \<noteq> (1 / 4 :: real)
   \<and> (0::real) < ln 2 / 16
   \<and> \<not> \<bar>ln 2 / 16 - (- 433 / 10000)\<bar> < (1 / 10000 :: real)"
proof -
  have p: "(0::real) < ln 2 / 16" by simp
  then have n: "\<not> \<bar>ln 2 / 16 - (- 433 / 10000)\<bar> < (1 / 10000 :: real)"
    by linarith
  have c: "- (1 / 4) \<noteq> (1 / 4 :: real)" by simp
  from forward_literal c p n show ?thesis by blast
qed

end
